theory Spec2Isabelle
  imports Complex_Main "HOL-Library.Log_Nat"
begin

section \<open>Numbers\<close>

text \<open>
  The TypeScript sources compute with JavaScript numbers. In the timeline, the transition
  curve and the job queue they are modelled as exact rationals: every arithmetic
  operation used there (addition, multiplication, division by a non-zero constant,
  comparison) is then the exact one, and the concrete inputs evaluated there use values
  that binary floating point represents exactly, so the source gives the same results on
  them. The word highlighting, whose subject is the rounding at the bounds, is modelled
  with the rounding of every operation.
\<close>

definition js_round :: "rat \<Rightarrow> int" where
  \<comment> \<open>\<open>Math.round\<close>: the nearest integer, halves rounded up.\<close>
  "js_round x = \<lfloor>x + 1 / 2\<rfloor>"

section \<open>Scenes and the timeline of \<open>LandscapeVideo\<close>\<close>

record Caption =
  caption_text :: string
  startMs :: rat
  endMs :: rat

record Audio =
  url :: string
  duration :: rat

record Scene =
  captions :: "Caption list"
  video :: string
  audio :: Audio

text \<open>
  \<open>scenes.slice(0, k).reduce((acc, curr) => acc + curr.audio.duration, 0)\<close>
\<close>

definition audio_sum :: "Scene list \<Rightarrow> nat \<Rightarrow> rat" where
  "audio_sum scenes k = foldl (\<lambda>acc curr. acc + duration (audio curr)) 0 (take k scenes)"

definition startFrame :: "Scene list \<Rightarrow> rat \<Rightarrow> nat \<Rightarrow> rat" where
  "startFrame scenes fps i = audio_sum scenes i * fps"

text \<open>
  \<open>config.paddingBack\<close> is an optional number; the guard \<open>config.paddingBack && ...\<close>
  holds when it is present and not zero.
\<close>

definition truthy :: "rat option \<Rightarrow> bool" where
  "truthy v = (case v of None \<Rightarrow> False | Some p \<Rightarrow> p \<noteq> 0)"

definition durationInFrames :: "Scene list \<Rightarrow> rat option \<Rightarrow> rat \<Rightarrow> nat \<Rightarrow> rat" where
  "durationInFrames scenes paddingBack fps i =
     (let d = audio_sum scenes (i + 1) * fps
      in if truthy paddingBack \<and> int i = int (length scenes) - 1
         then d + (the paddingBack / 1000) * fps
         else d)"

text \<open>
  Each scene \<open>i\<close> is rendered as
  \<open><Sequence from={startFrame} durationInFrames={durationInFrames}>\<close>.
\<close>

record SceneSequence =
  from_frame :: rat
  duration_frames :: rat

definition scene_sequences :: "Scene list \<Rightarrow> rat option \<Rightarrow> rat \<Rightarrow> SceneSequence list" where
  "scene_sequences scenes paddingBack fps =
     map (\<lambda>i. \<lparr>from_frame = startFrame scenes fps i,
               duration_frames = durationInFrames scenes paddingBack fps i\<rparr>)
         [0 ..< length scenes]"

text \<open>A scene whose audio lasts \<open>d\<close> seconds (captions and media are irrelevant here).\<close>

definition scene_of :: "rat \<Rightarrow> Scene" where
  "scene_of d = \<lparr>captions = [], video = ''v.mp4'', audio = \<lparr>url = ''a.mp3'', duration = d\<rparr>\<rparr>"

subsection \<open>Double arithmetic\<close>




subsection \<open>Word highlighting\<close>



definition token :: "string \<Rightarrow> rat \<Rightarrow> rat \<Rightarrow> Caption" where
  "token w a b = \<lparr>caption_text = w, startMs = a, endMs = b\<rparr>"

section \<open>Transition opacity\<close>

text \<open>
  \<open>interpolate\<close> is the rendering library's function. For a two-point input range and
  output range it checks that the input range is strictly increasing (and throws
  otherwise, here \<open>None\<close>), clamps the input at a side whose extrapolation option is
  \<open>clamp\<close>, leaves it alone where the option is the default \<open>extend\<close>, and maps it
  linearly.
\<close>

datatype ExtrapolateType = Extend | Clamp

definition interpolate ::
  "rat \<Rightarrow> rat \<times> rat \<Rightarrow> rat \<times> rat \<Rightarrow> ExtrapolateType \<Rightarrow> ExtrapolateType \<Rightarrow> rat option" where
  "interpolate input inputRange outputRange extrapolateLeft extrapolateRight =
     (let inputMin = fst inputRange; inputMax = snd inputRange;
          outputMin = fst outputRange; outputMax = snd outputRange
      in if \<not> inputMin < inputMax then None
         else
           let r1 = (if input < inputMin \<and> extrapolateLeft = Clamp then inputMin else input);
               r2 = (if r1 > inputMax \<and> extrapolateRight = Clamp then inputMax else r1)
           in if outputMin = outputMax then Some outputMin
              else Some ((r2 - inputMin) / (inputMax - inputMin) * (outputMax - outputMin)
                         + outputMin))"

datatype TransitionEnum = none | fade | slide

text \<open>
  The style object: \<open>opacity\<close>, and for \<open>slide\<close> the percentage of the
  \<open>translateX\<close> transform.
\<close>

record TransitionStyle =
  opacity :: rat
  translateX :: "rat option"

definition getTransitionStyle ::
  "TransitionEnum \<Rightarrow> rat \<Rightarrow> rat \<Rightarrow> rat \<Rightarrow> TransitionStyle option" where
  "getTransitionStyle transition transitionDurationFrames sceneFrame sceneDuration =
     (if transition = none then Some \<lparr>opacity = 1, translateX = None\<rparr>
      else
        case interpolate sceneFrame (0, transitionDurationFrames) (0, 1) Extend Clamp of
          None \<Rightarrow> None
        | Some fadeInProgress \<Rightarrow>
        (case interpolate sceneFrame (sceneDuration - transitionDurationFrames, sceneDuration)
                (1, 0) Clamp Extend of
          None \<Rightarrow> None
        | Some fadeOutProgress \<Rightarrow>
            if transition = fade
            then Some \<lparr>opacity = min fadeInProgress fadeOutProgress, translateX = None\<rparr>
            else if transition = slide
            then (case interpolate sceneFrame (0, transitionDurationFrames) (100, 0)
                         Extend Clamp of
                    None \<Rightarrow> None
                  | Some slideIn \<Rightarrow>
                      Some \<lparr>opacity = min fadeInProgress fadeOutProgress,
                            translateX = (if sceneFrame < transitionDurationFrames
                                          then Some slideIn else Some 0)\<rparr>)
            else Some \<lparr>opacity = 1, translateX = None\<rparr>))"

text \<open>
  The curve in the specification's words: an entry ramp rising from 0 to 1 over the
  first \<open>T\<close> frames, an exit ramp falling from 1 to 0 over the last \<open>T\<close> frames, their
  minimum, clamped to the unit interval.
\<close>

definition clamp01 :: "rat \<Rightarrow> rat" where
  "clamp01 x = max 0 (min 1 x)"

definition entryRamp :: "rat \<Rightarrow> rat \<Rightarrow> rat" where
  "entryRamp T f = clamp01 (f / T)"

definition exitRamp :: "rat \<Rightarrow> rat \<Rightarrow> rat \<Rightarrow> rat" where
  "exitRamp T D f = clamp01 ((D - f) / T)"

definition fade_opacity_spec :: "rat \<Rightarrow> rat \<Rightarrow> rat \<Rightarrow> rat" where
  "fade_opacity_spec T D f = clamp01 (min (entryRamp T f) (exitRamp T D f))"


section \<open>Progress events and the progress tracker\<close>

datatype Stage =
  queued | generating_audio | transcribing | fetching_videos | composing | rendering
  | complete | error

record ProgressEvent =
  videoId :: string
  stage :: Stage
  progress :: int
  message :: string
  error_message :: "string option"

text \<open>
  What is written to a response stream: \<open>data: <JSON of the event>\<close> by \<open>sendEvent\<close>,
  or the heartbeat comment. A response object is a mutable object with an identity; the
  tracker state holds them in a store indexed by that identity.
\<close>

datatype Chunk = Data ProgressEvent | Heartbeat

record Response =
  head_written :: bool
  written :: "Chunk list"
  writableEnded :: bool

record ProgressTracker =
  connections :: "string \<rightharpoonup> nat list"
  responses :: "nat \<Rightarrow> Response"
  emitted :: "ProgressEvent list"

definition sendEvent :: "nat \<Rightarrow> ProgressEvent \<Rightarrow> ProgressTracker \<Rightarrow> ProgressTracker" where
  "sendEvent res event t =
     t\<lparr>responses := (responses t)
          (res := (responses t res)\<lparr>written := written (responses t res) @ [Data event]\<rparr>)\<rparr>"

definition connected_event :: "string \<Rightarrow> ProgressEvent" where
  "connected_event vid =
     \<lparr>videoId = vid, stage = queued, progress = 0,
      message = ''Connected to progress stream'', error_message = None\<rparr>"

definition addConnection :: "string \<Rightarrow> nat \<Rightarrow> ProgressTracker \<Rightarrow> ProgressTracker" where
  "addConnection vid res t =
     (let t1 = t\<lparr>responses := (responses t)(res := (responses t res)\<lparr>head_written := True\<rparr>)\<rparr>;
          t2 = sendEvent res (connected_event vid) t1;
          conns = (case connections t2 vid of None \<Rightarrow> [] | Some cs \<Rightarrow> cs)
      in t2\<lparr>connections := (connections t2)(vid \<mapsto> conns @ [res])\<rparr>)"

text \<open>
  \<open>updateProgress\<close>, up to the point where it arms the one-second timer that closes the
  streams of a finished job; the timer's callback is \<open>close_finished\<close>.
\<close>

definition updateProgress :: "ProgressTracker \<Rightarrow> ProgressEvent \<Rightarrow> ProgressTracker" where
  "updateProgress t event =
     (let t1 = (case connections t (videoId event) of
                  None \<Rightarrow> t
                | Some cs \<Rightarrow>
                    foldl (\<lambda>acc res. if \<not> writableEnded (responses acc res)
                                      then sendEvent res event acc else acc) t cs)
      in t1\<lparr>emitted := emitted t1 @ [event]\<rparr>)"

definition close_finished :: "string \<Rightarrow> ProgressTracker \<Rightarrow> ProgressTracker" where
  "close_finished vid t =
     (case connections t vid of
        None \<Rightarrow> t
      | Some cs \<Rightarrow>
          (foldl (\<lambda>acc res. if \<not> writableEnded (responses acc res)
                            then acc\<lparr>responses := (responses acc)
                                     (res := (responses acc res)\<lparr>writableEnded := True\<rparr>)\<rparr>
                            else acc) t cs)
          \<lparr>connections := (connections t)(vid := None)\<rparr>)"

text \<open>The callback of the heartbeat interval of a connection.\<close>

definition heartbeat :: "nat \<Rightarrow> ProgressTracker \<Rightarrow> ProgressTracker" where
  "heartbeat res t =
     (if writableEnded (responses t res) then t
      else t\<lparr>responses := (responses t)
             (res := (responses t res)\<lparr>written := written (responses t res) @ [Heartbeat]\<rparr>)\<rparr>)"

text \<open>\<open>removeConnection\<close>, called when a response is closed.\<close>

definition removeConnection :: "string \<Rightarrow> nat \<Rightarrow> ProgressTracker \<Rightarrow> ProgressTracker" where
  "removeConnection vid res t =
     (case connections t vid of
        None \<Rightarrow> t
      | Some cs \<Rightarrow>
          let cs' = remove1 res cs
          in if cs' = [] then t\<lparr>connections := (connections t)(vid := None)\<rparr>
             else t\<lparr>connections := (connections t)(vid \<mapsto> cs')\<rparr>)"

text \<open>Everything that can happen to a tracker, one at a time.\<close>

datatype TrackerOp =
  Connect string nat | Publish ProgressEvent | Beat nat | TimerFires string
  | Disconnect string nat

fun apply_op :: "ProgressTracker \<Rightarrow> TrackerOp \<Rightarrow> ProgressTracker" where
  "apply_op t (Connect vid res) = addConnection vid res t"
| "apply_op t (Publish event) = updateProgress t event"
| "apply_op t (Beat res) = heartbeat res t"
| "apply_op t (TimerFires vid) = close_finished vid t"
| "apply_op t (Disconnect vid res) = removeConnection vid res t"

definition fresh_response :: Response where
  "fresh_response = \<lparr>head_written = False, written = [], writableEnded = False\<rparr>"

definition empty_tracker :: ProgressTracker where
  "empty_tracker = \<lparr>connections = Map.empty, responses = (\<lambda>_. fresh_response), emitted = []\<rparr>"

section \<open>The job queue: status\<close>

record SceneInput =
  scene_text :: string
  searchTerms :: "string list"

text \<open>The fields of the render configuration that decide the control flow modelled here.\<close>

record RenderConfig =
  paddingBack :: "rat option"
  videoSource :: "string option"
  plexMovieId :: "string option"

record Job =
  job_sceneInput :: "SceneInput list"
  job_config :: RenderConfig
  job_id :: string

datatype VideoStatus = processing | ready | failed

text \<open>
  \<open>path.join\<close> of two segments, in its POSIX form: the segments that are not empty are
  joined with a slash and the result is normalised. Normalising drops empty and \<open>.\<close>
  segments, resolves \<open>..\<close> against the segment before it (a relative path keeps a
  leading \<open>..\<close>, an absolute path drops it), and keeps a leading and a trailing slash.
\<close>

fun split_path :: "string \<Rightarrow> string \<Rightarrow> string list" where
  "split_path cur [] = [cur]"
| "split_path cur (c # cs) =
     (if c = CHR ''/'' then cur # split_path [] cs else split_path (cur @ [c]) cs)"

fun normalize_segments :: "bool \<Rightarrow> string list \<Rightarrow> string list \<Rightarrow> string list" where
  "normalize_segments allowAboveRoot res [] = res"
| "normalize_segments allowAboveRoot res (seg # segs) =
     (if seg = [] \<or> seg = ''.'' then normalize_segments allowAboveRoot res segs
      else if seg = ''..'' then
        (if res \<noteq> [] \<and> last res \<noteq> ''..''
         then normalize_segments allowAboveRoot (butlast res) segs
         else if allowAboveRoot
         then normalize_segments allowAboveRoot (res @ [''..'']) segs
         else normalize_segments allowAboveRoot res segs)
      else normalize_segments allowAboveRoot (res @ [seg]) segs)"

fun join_slash :: "string list \<Rightarrow> string" where
  "join_slash [] = []"
| "join_slash [seg] = seg"
| "join_slash (seg # segs) = seg @ ''/'' @ join_slash segs"

definition normalize_path :: "string \<Rightarrow> string" where
  "normalize_path p =
     (if p = [] then ''.''
      else
        let isAbsolute = (hd p = CHR ''/'');
            trailingSeparator = (last p = CHR ''/'');
            body = join_slash (normalize_segments (\<not> isAbsolute) [] (split_path [] p))
        in if body = []
           then (if isAbsolute then ''/'' else if trailingSeparator then ''./'' else ''.'')
           else (if isAbsolute then ''/'' else []) @ body
                @ (if trailingSeparator then ''/'' else []))"

definition path_join :: "string \<Rightarrow> string \<Rightarrow> string" where
  "path_join dir name =
     (if dir = [] \<and> name = [] then ''.''
      else if dir = [] then normalize_path name
      else if name = [] then normalize_path dir
      else normalize_path (dir @ ''/'' @ name))"

definition getVideoPath :: "string \<Rightarrow> string \<Rightarrow> string" where
  "getVideoPath videosDirPath vid = path_join videosDirPath (vid @ ''.mp4'')"

text \<open>
  \<open>status\<close> reads the queue and the file system (\<open>fs.existsSync\<close>); the file system is
  the set of paths that exist.
\<close>

definition status :: "string \<Rightarrow> Job list \<Rightarrow> string set \<Rightarrow> string \<Rightarrow> VideoStatus" where
  "status videosDirPath q files ident =
     (let videoPath = getVideoPath videosDirPath ident
      in if find (\<lambda>item. job_id item = ident) q \<noteq> None then processing
         else if videoPath \<in> files then ready
         else failed)"

section \<open>The job queue: creating a short\<close>

text \<open>
  A value thrown by a collaborator: an \<open>Error\<close> with its message, or anything else.
\<close>

datatype Thrown = ErrorInstance string | OtherValue

text \<open>
  Writing the footage to its temp file. A download that is answered with a status other
  than 200 is rejected and leaves the file that \<open>createWriteStream\<close> opened; a request
  error unlinks the file before rejecting. \<open>FailedNoFile\<close> also stands for a data URL
  that does not parse.
\<close>

datatype DownloadResult = Downloaded | FailedLeavingFile Thrown | FailedNoFile Thrown

text \<open>
  The outcomes of the external calls made for one scene, in the order of the calls:
  speech synthesis (the audio length in seconds), the two \<open>cuid()\<close> names, audio
  normalisation, transcription, MP3 conversion, the footage source (text-to-video
  generation, the crop of the movie, or the stock video search) and the download.
\<close>

record SceneEnv =
  tts_generate :: "Thrown + rat"
  tempId :: string
  saveNormalizedAudio :: "Thrown option"
  CreateCaption :: "Thrown + Caption list"
  saveToMp3 :: "Thrown option"
  footage :: "Thrown + string"
  videoFileId :: string
  download :: DownloadResult

record JobEnv =
  getMovieFilePath :: "Thrown + string"
  getVideoDuration :: "Thrown + rat"
  scene_env :: "nat \<Rightarrow> SceneEnv"
  render :: "Thrown option"
  removeSync :: "string \<Rightarrow> Thrown option"

record Config =
  tempDirPath :: string
  videosDirPath :: string
  port :: nat
  veniceVideo :: bool

text \<open>Decimal digits of a number, for the template strings.\<close>

function show_nat :: "nat \<Rightarrow> string" where
  "show_nat n =
     (if n < 10 then [char_of (48 + n)]
      else show_nat (n div 10) @ [char_of (48 + n mod 10)])"
  by pat_completeness auto
termination
  by (relation "measure id") auto

declare show_nat.simps [simp del]

definition mk_event :: "string \<Rightarrow> Stage \<Rightarrow> int \<Rightarrow> string \<Rightarrow> ProgressEvent" where
  "mk_event vid st p msg =
     \<lparr>videoId = vid, stage = st, progress = p, message = msg, error_message = None\<rparr>"

definition scene_message :: "string \<Rightarrow> nat \<Rightarrow> nat \<Rightarrow> string" where
  "scene_message what index n =
     what @ '' for scene '' @ show_nat (index + 1) @ ''/'' @ show_nat n @ ''...''"

definition tmp_url :: "Config \<Rightarrow> string \<Rightarrow> string" where
  "tmp_url cfg name = ''http://localhost:'' @ show_nat (port cfg) @ ''/api/tmp/'' @ name"

text \<open>
  The local state of one call of \<open>createShort\<close>: the events passed to
  \<open>progressTracker.updateProgress\<close>, the scenes, the total duration and the temp files
  collected so far; the files the call has written and the files it has removed; and the
  value it has thrown, if any.
\<close>

record Run =
  events :: "ProgressEvent list"
  scenes :: "Scene list"
  totalDuration :: rat
  tempFiles :: "string list"
  created :: "string list"
  removed :: "string list"
  thrown :: "Thrown option"

definition emit :: "ProgressEvent \<Rightarrow> Run \<Rightarrow> Run" where
  "emit e r = r\<lparr>events := events r @ [e]\<rparr>"

definition throw :: "Thrown \<Rightarrow> Run \<Rightarrow> Run" where
  "throw t r = r\<lparr>thrown := Some t\<rparr>"

definition push_tempFiles :: "string list \<Rightarrow> Run \<Rightarrow> Run" where
  \<comment> \<open>\<open>tempFiles.push(...)\<close>\<close>
  "push_tempFiles fs r = r\<lparr>tempFiles := tempFiles r @ fs\<rparr>"

definition write_file :: "string \<Rightarrow> Run \<Rightarrow> Run" where
  \<comment> \<open>a collaborator has written the file at this path\<close>
  "write_file f r = r\<lparr>created := created r @ [f]\<rparr>"

definition push_scene :: "Scene \<Rightarrow> Run \<Rightarrow> Run" where
  \<comment> \<open>\<open>scenes.push(...); totalDuration += audioLength\<close>\<close>
  "push_scene sc r =
     r\<lparr>scenes := scenes r @ [sc], totalDuration := totalDuration r + duration (audio sc)\<rparr>"

text \<open>What the loop body reads besides the scene: fixed before the loop starts.\<close>

record Ctx =
  ctx_config :: Config
  ctx_render :: RenderConfig
  ctx_videoId :: string
  ctx_sourceVideoPath :: "string option"
  ctx_movieDuration :: rat
  ctx_n :: nat

definition truthy_string :: "string option \<Rightarrow> bool" where
  "truthy_string v = (case v of None \<Rightarrow> False | Some s \<Rightarrow> s \<noteq> [])"

text \<open>The three footage branches; each ends with the URL of the scene's video.\<close>

definition fetch_by_download :: "Ctx \<Rightarrow> SceneEnv \<Rightarrow> Run \<Rightarrow> Run \<times> string" where
  "fetch_by_download c env r =
     (case footage env of
        Inl t \<Rightarrow> (throw t r, [])
      | Inr _ \<Rightarrow>
          let tempVideoFileName = videoFileId env @ ''.mp4'';
              tempVideoPath = path_join (tempDirPath (ctx_config c)) tempVideoFileName;
              r1 = push_tempFiles [tempVideoPath] r
          in case download env of
               Downloaded \<Rightarrow>
                 (write_file tempVideoPath r1, tmp_url (ctx_config c) tempVideoFileName)
             | FailedLeavingFile t \<Rightarrow> (throw t (write_file tempVideoPath r1), [])
             | FailedNoFile t \<Rightarrow> (throw t r1, []))"

definition fetch_by_crop :: "Ctx \<Rightarrow> SceneEnv \<Rightarrow> Run \<Rightarrow> Run \<times> string" where
  "fetch_by_crop c env r =
     (let tempClipFileName = videoFileId env @ ''.mp4'';
          tempClipPath = path_join (tempDirPath (ctx_config c)) tempClipFileName
      in case footage env of
           Inl t \<Rightarrow> (throw t r, [])
         | Inr _ \<Rightarrow>
             (push_tempFiles [tempClipPath] (write_file tempClipPath r),
              tmp_url (ctx_config c) tempClipFileName))"

definition fetch_video :: "Ctx \<Rightarrow> SceneEnv \<Rightarrow> Run \<Rightarrow> Run \<times> string" where
  "fetch_video c env r =
     (if videoSource (ctx_render c) = Some ''venice-ai'' \<and> veniceVideo (ctx_config c)
      then fetch_by_download c env r
      else if truthy_string (ctx_sourceVideoPath c) \<and> ctx_movieDuration c > 0
      then fetch_by_crop c env r
      else fetch_by_download c env r)"

text \<open>The body of \<open>for (const scene of inputScenes)\<close>, for the scene at \<open>index\<close>.\<close>

definition process_scene :: "Ctx \<Rightarrow> nat \<Rightarrow> SceneEnv \<Rightarrow> Run \<Rightarrow> Run" where
  "process_scene c index env r =
     (let vid = ctx_videoId c; n = ctx_n c;
          sceneProgress = js_round (of_nat index / of_nat n * 70);
          r1 = emit (mk_event vid generating_audio sceneProgress
                       (scene_message ''Generating audio'' index n)) r
      in case tts_generate env of
           Inl t \<Rightarrow> throw t r1
         | Inr len \<Rightarrow>
      let audioLength = (if index + 1 = n \<and> truthy (paddingBack (ctx_render c))
                         then len + the (paddingBack (ctx_render c)) / 1000 else len);
          tempWavFileName = tempId env @ ''.wav'';
          tempMp3FileName = tempId env @ ''.mp3'';
          tempWavPath = path_join (tempDirPath (ctx_config c)) tempWavFileName;
          tempMp3Path = path_join (tempDirPath (ctx_config c)) tempMp3FileName;
          r2 = push_tempFiles [tempWavPath, tempMp3Path] r1
      in case saveNormalizedAudio env of
           Some t \<Rightarrow> throw t r2
         | None \<Rightarrow>
      let r3 = emit (mk_event vid transcribing (sceneProgress + 5)
                       (scene_message ''Transcribing audio'' index n))
                 (write_file tempWavPath r2)
      in case CreateCaption env of
           Inl t \<Rightarrow> throw t r3
         | Inr caps \<Rightarrow>
      (case saveToMp3 env of
           Some t \<Rightarrow> throw t r3
         | None \<Rightarrow>
      let r4 = emit (mk_event vid fetching_videos (sceneProgress + 10)
                       (scene_message ''Fetching video'' index n))
                 (write_file tempMp3Path r3);
          (r5, videoUrl) = fetch_video c env r4
      in if thrown r5 \<noteq> None then r5
         else push_scene
                \<lparr>captions = caps, video = videoUrl,
                 audio = \<lparr>url = tmp_url (ctx_config c) tempMp3FileName,
                          duration = audioLength\<rparr>\<rparr> r5))"

fun scenes_loop :: "Ctx \<Rightarrow> (nat \<Rightarrow> SceneEnv) \<Rightarrow> nat \<Rightarrow> SceneInput list \<Rightarrow> Run \<Rightarrow> Run" where
  "scenes_loop c env index [] r = r"
| "scenes_loop c env index (scene # rest) r =
     (let r' = process_scene c index (env index) r
      in if thrown r' \<noteq> None then r' else scenes_loop c env (index + 1) rest r')"

definition remove_file :: "string \<Rightarrow> Run \<Rightarrow> Run" where
  "remove_file f r = r\<lparr>removed := removed r @ [f]\<rparr>"

text \<open>\<open>for (const file of tempFiles) fs.removeSync(file)\<close>\<close>

fun remove_files :: "(string \<Rightarrow> Thrown option) \<Rightarrow> string list \<Rightarrow> Run \<Rightarrow> Run" where
  "remove_files rm [] r = r"
| "remove_files rm (file # rest) r =
     (case rm file of
        Some t \<Rightarrow> throw t r
      | None \<Rightarrow> remove_files rm rest (remove_file file r))"

definition start_event :: "string \<Rightarrow> ProgressEvent" where
  "start_event vid = mk_event vid queued 0 ''Starting video creation...''"

text \<open>
  What follows the loop: composing, rendering, the final event and the purge. The
  renderer, when it succeeds, has written the video of the job to the videos directory.
\<close>

definition add_padding :: "RenderConfig \<Rightarrow> Run \<Rightarrow> Run" where
  \<comment> \<open>\<open>if (config.paddingBack) totalDuration += config.paddingBack / 1000\<close>\<close>
  "add_padding rc r =
     (if truthy (paddingBack rc)
      then r\<lparr>totalDuration := totalDuration r + the (paddingBack rc) / 1000\<rparr>
      else r)"

definition finish_short :: "Config \<Rightarrow> JobEnv \<Rightarrow> string \<Rightarrow> RenderConfig \<Rightarrow> Run \<Rightarrow> Run" where
  "finish_short cfg env vid rc r =
     (let r1 = add_padding rc r;
          r2 = emit (mk_event vid composing 75 ''Composing video with music...'') r1;
          r3 = emit (mk_event vid rendering 80 ''Rendering final video...'') r2
      in case render env of
           Some t \<Rightarrow> throw t r3
         | None \<Rightarrow>
             let r4 = emit (mk_event vid complete 100 ''Video creation complete!'')
                        (write_file (getVideoPath (videosDirPath cfg) vid) r3)
             in remove_files (removeSync env) (tempFiles r4) r4)"

definition createShort ::
  "Config \<Rightarrow> JobEnv \<Rightarrow> string \<Rightarrow> SceneInput list \<Rightarrow> RenderConfig \<Rightarrow> Run" where
  "createShort cfg env vid inputScenes rc =
     (let r0 = \<lparr>events = [start_event vid], scenes = [], totalDuration = 0, tempFiles = [],
                created = [], removed = [], thrown = None\<rparr>;
          sourceVideoPath =
            (if videoSource rc = Some ''plex'' \<and> truthy_string (plexMovieId rc)
             then (case getMovieFilePath env of Inl _ \<Rightarrow> None | Inr p \<Rightarrow> Some p)
             else None)
      in case (if truthy_string sourceVideoPath then getVideoDuration env else Inr 0) of
           Inl t \<Rightarrow> throw t r0
         | Inr movieDuration \<Rightarrow>
             let c = \<lparr>ctx_config = cfg, ctx_render = rc, ctx_videoId = vid,
                      ctx_sourceVideoPath = sourceVideoPath,
                      ctx_movieDuration = movieDuration, ctx_n = length inputScenes\<rparr>;
                 r1 = scenes_loop c (scene_env env) 0 inputScenes r0
             in if thrown r1 \<noteq> None then r1 else finish_short cfg env vid rc r1)"

section \<open>The job queue: \<open>addToQueue\<close> and \<open>processQueue\<close>\<close>

text \<open>
  The \<open>catch\<close> of \<open>processQueue\<close> reports the thrown value.
\<close>

definition error_event :: "string \<Rightarrow> Thrown \<Rightarrow> ProgressEvent" where
  "error_event vid t =
     \<lparr>videoId = vid, stage = error, progress = 0, message = ''Failed to create video'',
      error_message = Some (case t of ErrorInstance m \<Rightarrow> m | OtherValue \<Rightarrow> ''Unknown error'')\<rparr>"

text \<open>All events of one job: those of \<open>createShort\<close>, then the one of the \<open>catch\<close>.\<close>

definition job_events :: "Config \<Rightarrow> Job \<Rightarrow> JobEnv \<Rightarrow> ProgressEvent list" where
  "job_events cfg j env =
     (let r = createShort cfg env (job_id j) (job_sceneInput j) (job_config j)
      in events r @ (case thrown r of None \<Rightarrow> [] | Some t \<Rightarrow> [error_event (job_id j) t]))"

text \<open>
  \<open>createShort\<close> is an asynchronous function: a call runs at once up to its first
  \<open>await\<close> and goes on when the awaited call has returned. With a movie configured
  as the video source the first \<open>await\<close> is the look-up of the movie, right after the
  first event. Otherwise it is the speech synthesis of the first scene, after the event
  \<open>generating_audio\<close> of that scene; and for a job without scenes it is the rendering,
  after the events \<open>composing\<close> and \<open>rendering\<close>. \<open>sync_prefix\<close> is the list of
  events emitted up to there; it does not depend on what the collaborators return.
\<close>

definition sync_prefix :: "Job \<Rightarrow> ProgressEvent list" where
  "sync_prefix j =
     (let vid = job_id j; n = length (job_sceneInput j)
      in start_event vid #
         (if videoSource (job_config j) = Some ''plex''
               \<and> truthy_string (plexMovieId (job_config j))
          then []
          else if job_sceneInput j = []
          then [mk_event vid composing 75 ''Composing video with music...'',
                mk_event vid rendering 80 ''Rendering final video...'']
          else [mk_event vid generating_audio (js_round (of_nat 0 / of_nat n * 70))
                  (scene_message ''Generating audio'' 0 n)]))"

text \<open>
  The state of the creator: its queue, the events it has passed to the progress tracker,
  and the files on disk. JavaScript runs one piece of code at a time, and control changes
  hands only at an \<open>await\<close>; between two awaits of the running job the only other code of
  the creator that can run is \<open>addToQueue\<close>, which, on a queue that is not empty, only
  appends. The run of the head job is therefore taken in two steps. \<open>processQueue_begin\<close>
  is the call of \<open>processQueue\<close> up to the first \<open>await\<close> of \<open>createShort\<close>: it is what
  has happened when the caller of \<open>addToQueue\<close> or of the \<open>finally\<close> block gets control
  back. \<open>processQueue_settle\<close> is the rest of the job, with the \<open>catch\<close> and the
  \<open>finally\<close>, which removes the job from the queue and calls \<open>processQueue\<close> again.
\<close>

record ShortCreator =
  queue :: "Job list"
  progress_log :: "ProgressEvent list"
  disk :: "string set"

definition processQueue_begin :: "ShortCreator \<Rightarrow> ShortCreator" where
  "processQueue_begin s =
     (case queue s of
        [] \<Rightarrow> s
      | j # _ \<Rightarrow> s\<lparr>progress_log := progress_log s @ sync_prefix j\<rparr>)"

definition addToQueue :: "Job \<Rightarrow> ShortCreator \<Rightarrow> ShortCreator" where
  "addToQueue j s =
     (let s1 = s\<lparr>queue := queue s @ [j]\<rparr>
      in if length (queue s1) = 1 then processQueue_begin s1 else s1)"

definition processQueue_settle :: "Config \<Rightarrow> JobEnv \<Rightarrow> ShortCreator \<Rightarrow> ShortCreator" where
  "processQueue_settle cfg env s =
     (case queue s of
        [] \<Rightarrow> s
      | j # rest \<Rightarrow>
          let r = createShort cfg env (job_id j) (job_sceneInput j) (job_config j)
          in processQueue_begin
               (s\<lparr>queue := rest,
                  progress_log := progress_log s
                    @ drop (length (sync_prefix j)) (job_events cfg j env),
                  disk := (disk s \<union> set (created r)) - set (removed r)\<rparr>))"

datatype Input = Submit Job | Settle JobEnv

fun step :: "Config \<Rightarrow> ShortCreator \<Rightarrow> Input \<Rightarrow> ShortCreator" where
  "step cfg s (Submit j) = addToQueue j s"
| "step cfg s (Settle env) = processQueue_settle cfg env s"

definition initial :: ShortCreator where
  "initial = \<lparr>queue = [], progress_log = [], disk = {}\<rparr>"

definition run_inputs :: "Config \<Rightarrow> Input list \<Rightarrow> ShortCreator" where
  "run_inputs cfg ins = foldl (step cfg) initial ins"

fun submitted :: "Input list \<Rightarrow> Job list" where
  "submitted [] = []"
| "submitted (Submit j # ins) = j # submitted ins"
| "submitted (Settle _ # ins) = submitted ins"

text \<open>The order of the stages.\<close>

fun stage_rank :: "Stage \<Rightarrow> nat" where
  "stage_rank queued = 0"
| "stage_rank generating_audio = 1"
| "stage_rank transcribing = 2"
| "stage_rank fetching_videos = 3"
| "stage_rank composing = 4"
| "stage_rank rendering = 5"
| "stage_rank complete = 6"
| "stage_rank error = 7"

definition non_decreasing :: "Stage list \<Rightarrow> bool" where
  "non_decreasing ss = sorted (map stage_rank ss)"

text \<open>Concrete collaborators: every call succeeds, or transcription fails at one scene.\<close>

definition ok_scene :: "string \<Rightarrow> SceneEnv" where
  "ok_scene name =
     \<lparr>tts_generate = Inr 4, tempId = name, saveNormalizedAudio = None,
      CreateCaption = Inr [], saveToMp3 = None, footage = Inr ''https://videos/x'',
      videoFileId = name @ ''v'', download = Downloaded\<rparr>"

definition ok_env :: "string \<Rightarrow> JobEnv" where
  "ok_env name =
     \<lparr>getMovieFilePath = Inr ''/movies/m.mkv'', getVideoDuration = Inr 3600,
      scene_env = (\<lambda>i. ok_scene (name @ show_nat i)), render = None,
      removeSync = (\<lambda>_. None)\<rparr>"

definition whisper_fails_at :: "nat \<Rightarrow> string \<Rightarrow> JobEnv" where
  "whisper_fails_at k name =
     (ok_env name)\<lparr>scene_env := (\<lambda>i. if i = k
         then (ok_scene (name @ show_nat i))
                \<lparr>CreateCaption := Inl (ErrorInstance ''There was an error with WhisperCpp'')\<rparr>
         else ok_scene (name @ show_nat i))\<rparr>"

definition plain_config :: RenderConfig where
  "plain_config = \<lparr>paddingBack = None, videoSource = None, plexMovieId = None\<rparr>"

definition job_of :: "string \<Rightarrow> nat \<Rightarrow> Job" where
  "job_of name n =
     \<lparr>job_sceneInput = replicate n \<lparr>scene_text = ''hello'', searchTerms = [''sky'']\<rparr>,
      job_config = plain_config, job_id = name\<rparr>"

definition test_config :: Config where
  "test_config = \<lparr>tempDirPath = ''tmp'', videosDirPath = ''videos'', port = 3123,
                  veniceVideo = False\<rparr>"

text \<open>
  The shape of the log: the events of the jobs that have left the queue, job after job,
  and then the events that the job at the head of the queue, if there is one, has emitted
  before its first \<open>await\<close>.
\<close>

definition blocks :: "Config \<Rightarrow> (Job \<times> JobEnv) list \<Rightarrow> ProgressEvent list" where
  "blocks cfg finished = concat (map (\<lambda>(j, env). job_events cfg j env) finished)"

definition head_started :: "Job list \<Rightarrow> ProgressEvent list" where
  "head_started q = (case q of [] \<Rightarrow> [] | j # _ \<Rightarrow> sync_prefix j)"

text \<open>
  What processing in the order of submission with one worker means: every settling
  completes the oldest job that is waiting, with the outcomes of that settling.
  \<open>settled q ins\<close> lists the jobs completed by the inputs \<open>ins\<close> when the jobs \<open>q\<close>
  are waiting at the start.
\<close>

fun settled :: "Job list \<Rightarrow> Input list \<Rightarrow> (Job \<times> JobEnv) list" where
  "settled q [] = []"
| "settled q (Submit j # ins) = settled (q @ [j]) ins"
| "settled [] (Settle env # ins) = settled [] ins"
| "settled (j # q) (Settle env # ins) = (j, env) # settled q ins"

text \<open>The events of a scene that is processed without a failure.\<close>

definition scene_events :: "Ctx \<Rightarrow> nat \<Rightarrow> ProgressEvent list" where
  "scene_events c index =
     (let vid = ctx_videoId c; n = ctx_n c;
          sceneProgress = js_round (of_nat index / of_nat n * 70)
      in [mk_event vid generating_audio sceneProgress
            (scene_message ''Generating audio'' index n),
          mk_event vid transcribing (sceneProgress + 5)
            (scene_message ''Transcribing audio'' index n),
          mk_event vid fetching_videos (sceneProgress + 10)
            (scene_message ''Fetching video'' index n)])"

definition scene_only :: "string \<Rightarrow> ProgressEvent list \<Rightarrow> bool" where
  \<comment> \<open>events of this job, each of one of the three per-scene stages\<close>
  "scene_only vid ys =
     (\<forall>e \<in> set ys. videoId e = vid
         \<and> stage e \<in> {generating_audio, transcribing, fetching_videos})"

definition scene_stages :: "nat \<Rightarrow> Stage list" where
  "scene_stages n = concat (replicate n [generating_audio, transcribing, fetching_videos])"

definition inner_events :: "string \<Rightarrow> ProgressEvent list \<Rightarrow> bool" where
  \<comment> \<open>events of this job whose stage is neither the first stage nor the error stage\<close>
  "inner_events vid ys =
     (\<forall>e \<in> set ys. videoId e = vid \<and> stage e \<noteq> queued \<and> stage e \<noteq> error)"

text \<open>
  A run: job A with two scenes whose second transcription fails, and job B with one
  scene, submitted while A is being processed.
\<close>

definition two_jobs :: "Input list" where
  "two_jobs = [Submit (job_of ''A'' 2), Submit (job_of ''B'' 1),
               Settle (whisper_fails_at 1 ''A''), Settle (ok_env ''B'')]"

section \<open>Caption pages\<close>

text \<open>
  \<open>LandscapeVideo\<close> reads a page's \<open>startMs\<close>, \<open>endMs\<close> and \<open>lines\<close>, and a line's
  \<open>texts\<close>.
\<close>

record CaptionLine =
  texts :: "Caption list"

record CaptionPage =
  page_startMs :: rat
  page_endMs :: rat
  lines :: "CaptionLine list"

definition page_tokens :: "CaptionPage \<Rightarrow> Caption list" where
  "page_tokens p = concat (map texts (lines p))"

definition line_length :: "Caption list \<Rightarrow> nat" where
  "line_length ts = sum_list (map (\<lambda>t. length (caption_text t)) ts)"

definition page_of :: "CaptionLine list \<Rightarrow> CaptionPage" where
  "page_of ls =
     \<lparr>page_startMs = startMs (hd (concat (map texts ls))),
      page_endMs = endMs (last (concat (map texts ls))),
      lines = ls\<rparr>"

text \<open>
  Modelled from the spec: \<open>createCaptionPages\<close> is imported from the components'
  \<open>utils\<close> module, which is not among the sources. The specification's paginator walks
  the tokens in order. A token joins the current line while the line's character length
  plus the token's length stays within \<open>lineMaxLength\<close>; a token that does not fit
  starts a new line, and a new page when that line would take the page beyond
  \<open>lineCount\<close> lines. A token whose start lies more than \<open>maxDistanceMs\<close> after the end
  of the token before it starts a new page. Tokens are never split, and a token longer
  than \<open>lineMaxLength\<close> has a line of its own. A page's bounds are the start of its
  first token and the end of its last.

  The loop carries the finished pages, the finished lines of the current page and the
  tokens of the current line.
\<close>

fun paginate_loop ::
  "nat \<Rightarrow> nat \<Rightarrow> rat \<Rightarrow> CaptionPage list \<Rightarrow> CaptionLine list \<Rightarrow> Caption list
     \<Rightarrow> Caption list \<Rightarrow> CaptionPage list" where
  "paginate_loop lineMaxLength lineCount maxDistanceMs pages ls cur [] =
     (if cur = [] then pages else pages @ [page_of (ls @ [\<lparr>texts = cur\<rparr>])])"
| "paginate_loop lineMaxLength lineCount maxDistanceMs pages ls cur (t # ts) =
     (if cur = [] then
        paginate_loop lineMaxLength lineCount maxDistanceMs pages ls [t] ts
      else if startMs t - endMs (last cur) > maxDistanceMs then
        paginate_loop lineMaxLength lineCount maxDistanceMs
          (pages @ [page_of (ls @ [\<lparr>texts = cur\<rparr>])]) [] [t] ts
      else if line_length cur + length (caption_text t) \<le> lineMaxLength then
        paginate_loop lineMaxLength lineCount maxDistanceMs pages ls (cur @ [t]) ts
      else if length ls + 2 > lineCount then
        paginate_loop lineMaxLength lineCount maxDistanceMs
          (pages @ [page_of (ls @ [\<lparr>texts = cur\<rparr>])]) [] [t] ts
      else
        paginate_loop lineMaxLength lineCount maxDistanceMs pages (ls @ [\<lparr>texts = cur\<rparr>]) [t] ts)"

definition createCaptionPages :: "Caption list \<Rightarrow> nat \<Rightarrow> nat \<Rightarrow> rat \<Rightarrow> CaptionPage list" where
  "createCaptionPages caps lineMaxLength lineCount maxDistanceMs =
     paginate_loop lineMaxLength lineCount maxDistanceMs [] [] [] caps"

definition page_bounds_ok :: "CaptionPage \<Rightarrow> bool" where
  \<comment> \<open>the page has a token, and its bounds are those of its first and last token\<close>
  "page_bounds_ok p =
     (page_tokens p \<noteq> []
      \<and> page_startMs p = startMs (hd (page_tokens p))
      \<and> page_endMs p = endMs (last (page_tokens p)))"

section \<open>Theorems\<close>

subsection \<open>Timeline\<close>

lemma audio_sum_sum_list:
  "audio_sum scs k = sum_list (map (\<lambda>s. duration (audio s)) (take k scs))"
proof -
  have "foldl (\<lambda>acc curr. acc + duration (audio curr)) a xs
          = a + sum_list (map (\<lambda>s. duration (audio s)) xs)" for a and xs :: "Scene list"
    by (induction xs arbitrary: a) (simp_all add: algebra_simps)
  then show ?thesis by (simp add: audio_sum_def)
qed

lemma startFrame_prefix_sum:
  "startFrame scs fps i = fps * sum_list (map (\<lambda>s. duration (audio s)) (take i scs))"
  by (simp add: startFrame_def audio_sum_sum_list)

lemma durationInFrames_is_end_frame:
  "durationInFrames scs None fps i = startFrame scs fps (i + 1)"
  by (simp add: durationInFrames_def startFrame_def truthy_def)

lemma durationInFrames_own_plus_start:
  assumes "i < length scs"
  shows "durationInFrames scs None fps i
           = startFrame scs fps i + fps * duration (audio (scs ! i))"
  using assms
  by (simp add: durationInFrames_is_end_frame startFrame_prefix_sum take_Suc_conv_app_nth
      algebra_simps)

text \<open>
  C1. The claim: scene \<open>i\<close> starts at \<open>fps\<close> times the audio of the scenes before it and
  gets as duration \<open>fps\<close> times the audio up to and including it, minus its start frame:
  its own audio in frames. On the two scenes of 4 and 6 seconds at 30 frames per second the
  source gives the second scene the start frame 120 and the duration 300, which is its end
  frame, not 300 - 120; the durations sum to 420, not to 300.
\<close>

theorem timeline_duration_at_two_scenes:
  "scene_sequences [scene_of 4, scene_of 6] None 30
     = [\<lparr>from_frame = 0, duration_frames = 120\<rparr>, \<lparr>from_frame = 120, duration_frames = 300\<rparr>]
   \<and> durationInFrames [scene_of 4, scene_of 6] None 30 1
       \<noteq> 30 * (4 + 6) - startFrame [scene_of 4, scene_of 6] 30 1
   \<and> sum_list (map duration_frames (scene_sequences [scene_of 4, scene_of 6] None 30)) = 420
   \<and> js_round (30 * (4 + 6)) = 300"
  by code_simp

text \<open>
  C2. The claim: with a back padding the last scene lasts its own audio plus
  \<open>fps \<times> paddingBack / 1000\<close> frames, and no other scene lasts longer than its audio.
  On three scenes of 4, 6 and 5 seconds at 30 frames per second with a padding of 1500 ms
  the source gives the durations 120, 300 and 495: the middle scene exceeds its own 180
  frames, and the last one exceeds its own 150 frames by 345, not by 45.
\<close>

theorem timeline_padding_at_three_scenes:
  "map duration_frames (scene_sequences [scene_of 4, scene_of 6, scene_of 5] (Some 1500) 30)
     = [120, 300, 495]
   \<and> durationInFrames [scene_of 4, scene_of 6, scene_of 5] (Some 1500) 30 1 > 30 * 6
   \<and> durationInFrames [scene_of 4, scene_of 6, scene_of 5] (Some 1500) 30 2
       \<noteq> 30 * 5 + 30 * 1500 / 1000"
  by code_simp

subsection \<open>Word highlighting\<close>





subsection \<open>Transition opacity\<close>

text \<open>
  C8, as stated, fails for a transition length of 0, which the configuration allows
  (only an absent value is replaced by the default): the interpolation rejects the input
  range from 0 to 0, the helper throws, and no opacity is computed.
\<close>

theorem fade_zero_window_counterexample:
  "getTransitionStyle fade 0 0 120 = None
   \<and> getTransitionStyle fade 0 0 120
       \<noteq> Some \<lparr>opacity = fade_opacity_spec 0 120 0, translateX = None\<rparr>"
  by (simp add: getTransitionStyle_def interpolate_def)

text \<open>
  C8, amended. For the \<open>fade\<close> transition with a positive transition length, at every
  scene-local frame between 0 and the scene duration the opacity is the minimum of the
  entry ramp and the exit ramp, clamped to the unit interval; with a transition length
  that is not positive the helper throws for \<open>fade\<close>; for \<open>none\<close> the opacity is 1.
\<close>

theorem fade_opacity:
  "(0 < T \<longrightarrow> 0 \<le> f \<longrightarrow> f \<le> D \<longrightarrow>
      getTransitionStyle fade T f D
        = Some \<lparr>opacity = fade_opacity_spec T D f, translateX = None\<rparr>
      \<and> fade_opacity_spec T D f = min (entryRamp T f) (exitRamp T D f)
      \<and> 0 \<le> fade_opacity_spec T D f \<and> fade_opacity_spec T D f \<le> 1)
   \<and> getTransitionStyle none T f D = Some \<lparr>opacity = 1, translateX = None\<rparr>
   \<and> (T \<le> 0 \<longrightarrow> getTransitionStyle fade T f D = None)"
proof -
  have none_case: "getTransitionStyle none T f D = Some \<lparr>opacity = 1, translateX = None\<rparr>"
    by (simp add: getTransitionStyle_def)
  have bounds: "0 \<le> fade_opacity_spec T D f \<and> fade_opacity_spec T D f \<le> 1"
    by (simp add: fade_opacity_spec_def clamp01_def)
  have inner: "fade_opacity_spec T D f = min (entryRamp T f) (exitRamp T D f)"
    by (simp add: fade_opacity_spec_def entryRamp_def exitRamp_def clamp01_def)
  have fade_case: "getTransitionStyle fade T f D
        = Some \<lparr>opacity = fade_opacity_spec T D f, translateX = None\<rparr>"
    if "0 < T" "0 \<le> f" "f \<le> D"
    using that
    unfolding getTransitionStyle_def interpolate_def fade_opacity_spec_def entryRamp_def
      exitRamp_def clamp01_def
    by (auto simp: Let_def min_def max_def field_simps)
  have throws: "getTransitionStyle fade T f D = None" if "T \<le> 0"
    using that by (simp add: getTransitionStyle_def interpolate_def)
  show ?thesis
    using none_case bounds inner fade_case throws by blast
qed

theorem fade_opacity_witness:
  "(0::rat) < 16 \<and> (0::rat) \<le> 116 \<and> (116::rat) \<le> 120
   \<and> getTransitionStyle fade 16 116 120 = Some \<lparr>opacity = 1 / 4, translateX = None\<rparr>
   \<and> fade_opacity_spec 16 120 116 = 1 / 4
   \<and> (0::rat) \<le> 0 \<and> getTransitionStyle fade 0 116 120 = None"
  using fade_opacity [of 16 116 120] fade_opacity [of 0 116 120]
  by (simp add: fade_opacity_spec_def entryRamp_def exitRamp_def clamp01_def)

subsection \<open>Status\<close>

lemma find_job_id: "find (\<lambda>item. job_id item = ident) q \<noteq> None \<longleftrightarrow> ident \<in> job_id ` set q"
  by (auto simp: find_None_iff)

text \<open>
  C9. The status of an id is \<open>processing\<close> if a job with that id is in the queue,
  otherwise \<open>ready\<close> if the rendered file exists, otherwise \<open>failed\<close>; an id that is not in
  the queue and has no rendered file is \<open>failed\<close>, whether or not it was ever submitted.
\<close>

theorem status_three_way:
  "status dir q files ident
     = (if ident \<in> job_id ` set q then processing
        else if getVideoPath dir ident \<in> files then ready else failed)
   \<and> (ident \<notin> job_id ` set q \<longrightarrow> getVideoPath dir ident \<notin> files
        \<longrightarrow> status dir q files ident = failed)
   \<and> status dir q files ident \<in> {processing, ready, failed}"
proof -
  have eq: "status dir q files ident
     = (if ident \<in> job_id ` set q then processing
        else if getVideoPath dir ident \<in> files then ready else failed)"
    unfolding status_def Let_def find_job_id by (rule refl)
  have "status dir q files ident \<in> {processing, ready, failed}"
    by (cases "status dir q files ident") simp_all
  with eq show ?thesis by simp
qed

theorem status_three_way_witness:
  "''never'' \<notin> job_id ` set [\<lparr>job_sceneInput = [], job_config = \<lparr>paddingBack = None,
        videoSource = None, plexMovieId = None\<rparr>, job_id = ''a1''\<rparr>]
   \<and> getVideoPath ''videos'' ''never'' \<notin> {''videos/done.mp4''}
   \<and> status ''videos'' [\<lparr>job_sceneInput = [], job_config = \<lparr>paddingBack = None,
        videoSource = None, plexMovieId = None\<rparr>, job_id = ''a1''\<rparr>] {''videos/done.mp4''}
        ''never'' = failed"
  using status_three_way [of "''videos''" "[\<lparr>job_sceneInput = [], job_config =
        \<lparr>paddingBack = None, videoSource = None, plexMovieId = None\<rparr>, job_id = ''a1''\<rparr>]"
      "{''videos/done.mp4''}" "''never''"]
  by (simp add: getVideoPath_def path_join_def normalize_path_def)

subsection \<open>Progress tracker\<close>

lemma written_sendEvent:
  "written (responses (sendEvent r e t) r') =
     (if r' = r then written (responses t r) @ [Data e] else written (responses t r'))"
  by (simp add: sendEvent_def)

lemma written_fold_send:
  "\<exists>ys. written (responses
            (foldl (\<lambda>acc res. if \<not> writableEnded (responses acc res)
                              then sendEvent res e acc else acc) t cs) r)
          = written (responses t r) @ ys"
proof (induction cs arbitrary: t)
  case Nil
  show ?case by simp
next
  case (Cons c cs)
  let ?t1 = "if \<not> writableEnded (responses t c) then sendEvent c e t else t"
  obtain ys where ys: "written (responses
            (foldl (\<lambda>acc res. if \<not> writableEnded (responses acc res)
                              then sendEvent res e acc else acc) ?t1 cs) r)
          = written (responses ?t1 r) @ ys"
    using Cons.IH [of ?t1] by blast
  have "\<exists>zs. written (responses ?t1 r) = written (responses t r) @ zs"
    by (simp add: written_sendEvent)
  then obtain zs where zs: "written (responses ?t1 r) = written (responses t r) @ zs"
    by blast
  show ?case
    using ys zs by simp
qed

lemma written_updateProgress:
  "\<exists>ys. written (responses (updateProgress t e) r) = written (responses t r) @ ys"
proof (cases "connections t (videoId e)")
  case None
  then show ?thesis by (simp add: updateProgress_def)
next
  case (Some cs)
  then show ?thesis
    using written_fold_send [of e t cs r] by (simp add: updateProgress_def Let_def)
qed

lemma written_close_finished:
  "written (responses (close_finished vid t) r) = written (responses t r)"
proof -
  have "written (responses
          (foldl (\<lambda>acc res. if \<not> writableEnded (responses acc res)
                            then acc\<lparr>responses := (responses acc)
                                     (res := (responses acc res)\<lparr>writableEnded := True\<rparr>)\<rparr>
                            else acc) t cs) r) = written (responses t r)" for cs
    by (induction cs arbitrary: t) simp_all
  then show ?thesis
    by (simp add: close_finished_def split: option.splits)
qed

lemma written_apply_op:
  "\<exists>ys. written (responses (apply_op t op) r) = written (responses t r) @ ys"
proof (cases op)
  case (Connect vid res)
  then show ?thesis
    by (simp add: addConnection_def Let_def sendEvent_def)
next
  case (Publish event)
  then show ?thesis using written_updateProgress [of t event r] by simp
next
  case (Beat res)
  then show ?thesis by (simp add: heartbeat_def)
next
  case (TimerFires vid)
  then show ?thesis by (simp add: written_close_finished)
next
  case (Disconnect vid res)
  then show ?thesis by (simp add: removeConnection_def Let_def split: option.splits)
qed

lemma written_ops:
  "\<exists>ys. written (responses (foldl apply_op t ops) r) = written (responses t r) @ ys"
proof (induction ops arbitrary: t)
  case Nil
  show ?case by simp
next
  case (Cons op ops)
  obtain ys where ys: "written (responses (foldl apply_op (apply_op t op) ops) r)
      = written (responses (apply_op t op) r) @ ys"
    using Cons.IH [of "apply_op t op"] by (elim exE)
  obtain zs where zs: "written (responses (apply_op t op) r) = written (responses t r) @ zs"
    using written_apply_op [of t op r] by (elim exE)
  show ?case using ys zs by simp
qed

text \<open>
  C10. Whatever the state of the tracker (whatever events have been published for the
  job before), \<open>addConnection\<close> writes to the new subscriber exactly one event: stage
  \<open>queued\<close>, progress 0, message "Connected to progress stream". For a subscriber that
  had received nothing, that event stays the first one it receives, whatever is published
  or happens to the tracker afterwards.
\<close>

theorem addConnection_sends_queued:
  "written (responses (addConnection vid r t) r)
     = written (responses t r)
       @ [Data \<lparr>videoId = vid, stage = queued, progress = 0,
                message = ''Connected to progress stream'', error_message = None\<rparr>]
   \<and> (written (responses t r) = [] \<longrightarrow>
        hd (written (responses (foldl apply_op (addConnection vid r t) later) r))
          = Data \<lparr>videoId = vid, stage = queued, progress = 0,
                  message = ''Connected to progress stream'', error_message = None\<rparr>)"
proof -
  have first: "written (responses (addConnection vid r t) r)
     = written (responses t r) @ [Data (connected_event vid)]"
    by (simp add: addConnection_def Let_def sendEvent_def)
  obtain ys where "written (responses (foldl apply_op (addConnection vid r t) later) r)
     = written (responses (addConnection vid r t) r) @ ys"
    using written_ops [of "addConnection vid r t" later r] by (elim exE)
  with first show ?thesis by (simp add: connected_event_def)
qed

theorem addConnection_sends_queued_witness:
  "written (responses (updateProgress empty_tracker (mk_event ''job1'' rendering 80
        ''Rendering final video...'')) 7) = []
   \<and> written (responses (foldl apply_op
        (addConnection ''job1'' 7 (updateProgress empty_tracker (mk_event ''job1'' rendering 80
           ''Rendering final video...'')))
        [Publish (mk_event ''job1'' complete 100 ''Video creation complete!''), Beat 7]) 7)
       = [Data \<lparr>videoId = ''job1'', stage = queued, progress = 0,
                 message = ''Connected to progress stream'', error_message = None\<rparr>,
          Data (mk_event ''job1'' complete 100 ''Video creation complete!''),
          Heartbeat]
   \<and> hd (written (responses (foldl apply_op
        (addConnection ''job1'' 7 (updateProgress empty_tracker (mk_event ''job1'' rendering 80
           ''Rendering final video...'')))
        [Publish (mk_event ''job1'' complete 100 ''Video creation complete!''), Beat 7]) 7))
       = Data \<lparr>videoId = ''job1'', stage = queued, progress = 0,
                message = ''Connected to progress stream'', error_message = None\<rparr>"
  using addConnection_sends_queued [of "''job1''" 7
      "updateProgress empty_tracker (mk_event ''job1'' rendering 80 ''Rendering final video...'')"
      "[Publish (mk_event ''job1'' complete 100 ''Video creation complete!''), Beat 7]"]
  by (simp add: empty_tracker_def fresh_response_def addConnection_def updateProgress_def
      sendEvent_def heartbeat_def Let_def connected_event_def mk_event_def)
subsection \<open>The job queue\<close>

text \<open>What each update of the local state of \<open>createShort\<close> changes.\<close>

lemma emit_fields [simp]:
  "events (emit e r) = events r @ [e]"
  "scenes (emit e r) = scenes r"
  "totalDuration (emit e r) = totalDuration r"
  "tempFiles (emit e r) = tempFiles r"
  "created (emit e r) = created r"
  "removed (emit e r) = removed r"
  "thrown (emit e r) = thrown r"
  by (simp_all add: emit_def)

lemma throw_fields [simp]:
  "events (throw t r) = events r"
  "scenes (throw t r) = scenes r"
  "totalDuration (throw t r) = totalDuration r"
  "tempFiles (throw t r) = tempFiles r"
  "created (throw t r) = created r"
  "removed (throw t r) = removed r"
  "thrown (throw t r) = Some t"
  by (simp_all add: throw_def)

lemma push_tempFiles_fields [simp]:
  "events (push_tempFiles fs r) = events r"
  "scenes (push_tempFiles fs r) = scenes r"
  "totalDuration (push_tempFiles fs r) = totalDuration r"
  "tempFiles (push_tempFiles fs r) = tempFiles r @ fs"
  "created (push_tempFiles fs r) = created r"
  "removed (push_tempFiles fs r) = removed r"
  "thrown (push_tempFiles fs r) = thrown r"
  by (simp_all add: push_tempFiles_def)

lemma write_file_fields [simp]:
  "events (write_file f r) = events r"
  "scenes (write_file f r) = scenes r"
  "totalDuration (write_file f r) = totalDuration r"
  "tempFiles (write_file f r) = tempFiles r"
  "created (write_file f r) = created r @ [f]"
  "removed (write_file f r) = removed r"
  "thrown (write_file f r) = thrown r"
  by (simp_all add: write_file_def)

lemma push_scene_fields [simp]:
  "events (push_scene sc r) = events r"
  "scenes (push_scene sc r) = scenes r @ [sc]"
  "totalDuration (push_scene sc r) = totalDuration r + duration (audio sc)"
  "tempFiles (push_scene sc r) = tempFiles r"
  "created (push_scene sc r) = created r"
  "removed (push_scene sc r) = removed r"
  "thrown (push_scene sc r) = thrown r"
  by (simp_all add: push_scene_def)

lemma remove_file_fields [simp]:
  "events (remove_file f r) = events r"
  "scenes (remove_file f r) = scenes r"
  "totalDuration (remove_file f r) = totalDuration r"
  "tempFiles (remove_file f r) = tempFiles r"
  "created (remove_file f r) = created r"
  "removed (remove_file f r) = removed r @ [f]"
  "thrown (remove_file f r) = thrown r"
  by (simp_all add: remove_file_def)

lemma add_padding_fields [simp]:
  "events (add_padding rc r) = events r"
  "scenes (add_padding rc r) = scenes r"
  "tempFiles (add_padding rc r) = tempFiles r"
  "created (add_padding rc r) = created r"
  "removed (add_padding rc r) = removed r"
  "thrown (add_padding rc r) = thrown r"
  by (simp_all add: add_padding_def)

lemma events_fetch_by_download [simp]: "events (fst (fetch_by_download c env r)) = events r"
  by (simp add: fetch_by_download_def Let_def split: sum.splits DownloadResult.splits)

lemma events_fetch_by_crop [simp]: "events (fst (fetch_by_crop c env r)) = events r"
  by (simp add: fetch_by_crop_def Let_def split: sum.splits)

lemma events_fetch_video [simp]: "events (fst (fetch_video c env r)) = events r"
  by (simp add: fetch_video_def)

lemma process_scene_tts_fails:
  assumes "tts_generate env = Inl t"
  shows "events (process_scene c i env r) = events r @ take 1 (scene_events c i)"
    and "thrown (process_scene c i env r) \<noteq> None"
  using assms by (simp_all add: process_scene_def scene_events_def Let_def)

lemma process_scene_normalize_fails:
  assumes "tts_generate env = Inr len" "saveNormalizedAudio env = Some t"
  shows "events (process_scene c i env r) = events r @ take 1 (scene_events c i)"
    and "thrown (process_scene c i env r) \<noteq> None"
  using assms by (simp_all add: process_scene_def scene_events_def Let_def)

lemma process_scene_caption_fails:
  assumes "tts_generate env = Inr len" "saveNormalizedAudio env = None"
    "CreateCaption env = Inl t"
  shows "events (process_scene c i env r) = events r @ take 2 (scene_events c i)"
    and "thrown (process_scene c i env r) \<noteq> None"
  using assms by (simp_all add: process_scene_def scene_events_def Let_def)

lemma process_scene_mp3_fails:
  assumes "tts_generate env = Inr len" "saveNormalizedAudio env = None"
    "CreateCaption env = Inr caps" "saveToMp3 env = Some t"
  shows "events (process_scene c i env r) = events r @ take 2 (scene_events c i)"
    and "thrown (process_scene c i env r) \<noteq> None"
  using assms by (simp_all add: process_scene_def scene_events_def Let_def)
lemma process_scene_reaches_fetch:
  assumes "tts_generate env = Inr len" "saveNormalizedAudio env = None"
    "CreateCaption env = Inr caps" "saveToMp3 env = None"
  shows "events (process_scene c i env r) = events r @ scene_events c i"
proof -
  have "events (if thrown (fst p) \<noteq> None then fst p else push_scene sc (fst p)) = events (fst p)"
    for p :: "Run \<times> string" and sc
    by simp
  then show ?thesis
    using assms
    by (simp add: process_scene_def scene_events_def Let_def split_beta)
qed

text \<open>A scene emits a prefix of its three events, and all three when it succeeds.\<close>

lemma events_process_scene:
  "(\<exists>k. events (process_scene c i env r) = events r @ take k (scene_events c i))
   \<and> (thrown (process_scene c i env r) = None \<longrightarrow>
        events (process_scene c i env r) = events r @ scene_events c i)"
proof (cases "tts_generate env")
  case (Inl t)
  from process_scene_tts_fails [OF this, of c i r]
  show ?thesis by (intro conjI exI [of _ 1]) auto
next
  case tts: (Inr len)
  show ?thesis
  proof (cases "saveNormalizedAudio env")
    case (Some t)
    from process_scene_normalize_fails [OF tts this, of c i r]
    show ?thesis by (intro conjI exI [of _ 1]) auto
  next
    case norm: None
    show ?thesis
    proof (cases "CreateCaption env")
      case (Inl t)
      from process_scene_caption_fails [OF tts norm this, of c i r]
      show ?thesis by (intro conjI exI [of _ 2]) auto
    next
      case cap: (Inr caps)
      show ?thesis
      proof (cases "saveToMp3 env")
        case (Some t)
        from process_scene_mp3_fails [OF tts norm cap this, of c i r]
        show ?thesis by (intro conjI exI [of _ 2]) auto
      next
        case None
        have "take 3 (scene_events c i) = scene_events c i"
          by (simp add: scene_events_def Let_def)
        with process_scene_reaches_fetch [OF tts norm cap None, of c i r]
        show ?thesis by (intro conjI exI [of _ 3]) simp_all
      qed
    qed
  qed
qed

lemma stages_scene_events:
  "map stage (scene_events c i) = [generating_audio, transcribing, fetching_videos]"
  by (simp add: scene_events_def Let_def mk_event_def)

lemma scene_event_props:
  assumes "e \<in> set (scene_events c i)"
  shows "videoId e = ctx_videoId c"
    and "stage e \<in> {generating_audio, transcribing, fetching_videos}"
  using assms by (auto simp: scene_events_def Let_def mk_event_def)

lemma scenes_loop_stop:
  "thrown (process_scene c i (env i) r) \<noteq> None \<Longrightarrow>
     scenes_loop c env i (x # xs) r = process_scene c i (env i) r"
  by (simp add: Let_def)

lemma scenes_loop_continue:
  "thrown (process_scene c i (env i) r) = None \<Longrightarrow>
     scenes_loop c env i (x # xs) r = scenes_loop c env (i + 1) xs (process_scene c i (env i) r)"
  by (simp add: Let_def)

lemma length_scene_events: "length (scene_events c i) = 3"
  by (simp add: scene_events_def Let_def)

lemma scene_only_Nil: "scene_only vid []"
  by (simp add: scene_only_def)

lemma scene_only_append: "scene_only vid (ys @ zs) \<longleftrightarrow> scene_only vid ys \<and> scene_only vid zs"
  by (simp add: scene_only_def ball_Un)

lemma scene_only_take: "scene_only vid ys \<Longrightarrow> scene_only vid (take k ys)"
  unfolding scene_only_def by (meson in_set_takeD)

lemma scene_only_scene_events: "scene_only (ctx_videoId c) (scene_events c i)"
  unfolding scene_only_def using scene_event_props by blast

text \<open>
  The loop appends events of scenes only; when it does not throw, it appends the three
  events of every scene.
\<close>

lemma events_scenes_loop:
  "\<exists>ys. events (scenes_loop c env i xs r) = events r @ ys
        \<and> scene_only (ctx_videoId c) ys
        \<and> (thrown (scenes_loop c env i xs r) = None \<longrightarrow>
             map stage ys = scene_stages (length xs))"
proof (induction xs arbitrary: i r)
  case Nil
  have "events (scenes_loop c env i [] r) = events r @ []" by simp
  moreover have "map stage [] = scene_stages (length ([] :: SceneInput list))"
    by (simp add: scene_stages_def)
  ultimately show ?case using scene_only_Nil
    by (intro exI [of _ "[]"] conjI impI)
next
  case (Cons x xs)
  let ?r' = "process_scene c i (env i) r"
  from events_process_scene [of c i "env i" r]
  obtain k where k: "events ?r' = events r @ take k (scene_events c i)"
    by (elim conjE exE)
  from events_process_scene [of c i "env i" r]
  have ok: "thrown ?r' = None \<longrightarrow> events ?r' = events r @ scene_events c i"
    by (elim conjE)
  show ?case
  proof (cases "thrown ?r' = None")
    case False
    then have stop: "scenes_loop c env i (x # xs) r = ?r'" by (rule scenes_loop_stop)
    have "scene_only (ctx_videoId c) (take k (scene_events c i))"
      by (rule scene_only_take [OF scene_only_scene_events])
    have "thrown (scenes_loop c env i (x # xs) r) = None \<longrightarrow>
        map stage (take k (scene_events c i)) = scene_stages (length (x # xs))"
      using False stop by auto
    moreover have "events (scenes_loop c env i (x # xs) r)
        = events r @ take k (scene_events c i)"
      using k stop by simp
    ultimately show ?thesis
      using \<open>scene_only (ctx_videoId c) (take k (scene_events c i))\<close>
      by (intro exI [of _ "take k (scene_events c i)"] conjI)
  next
    case True
    then have loop: "scenes_loop c env i (x # xs) r = scenes_loop c env (i + 1) xs ?r'"
      by (rule scenes_loop_continue)
    from True ok
    have full: "events ?r' = events r @ scene_events c i"
      by (elim impE)
    obtain ys where ys: "events (scenes_loop c env (i + 1) xs ?r') = events ?r' @ ys"
      "scene_only (ctx_videoId c) ys"
      "thrown (scenes_loop c env (i + 1) xs ?r') = None \<longrightarrow>
             map stage ys = scene_stages (length xs)"
      using Cons.IH [of "i + 1" ?r'] by (elim exE conjE)
    have ev: "events (scenes_loop c env i (x # xs) r) = events r @ (scene_events c i @ ys)"
      using loop full ys(1) by simp
    have only: "scene_only (ctx_videoId c) (scene_events c i @ ys)"
      using ys(2) scene_only_scene_events by (simp add: scene_only_append)
    have st: "thrown (scenes_loop c env i (x # xs) r) = None \<longrightarrow>
        map stage (scene_events c i @ ys) = scene_stages (length (x # xs))"
      using ys(3) loop by (simp add: stages_scene_events scene_stages_def)
    from ev only st show ?thesis
      by (intro exI [of _ "scene_events c i @ ys"] conjI)
  qed
qed
lemma inner_events_Nil: "inner_events vid []"
  by (simp add: inner_events_def)

lemma inner_events_append:
  "inner_events vid (ys @ zs) \<longleftrightarrow> inner_events vid ys \<and> inner_events vid zs"
  by (simp add: inner_events_def ball_Un)

lemma scene_only_inner: "scene_only vid ys \<Longrightarrow> inner_events vid ys"
  unfolding scene_only_def inner_events_def by fastforce

lemma events_remove_files [simp]: "events (remove_files rm fs r) = events r"
  by (induction fs arbitrary: r) (simp_all split: option.splits)

lemma events_finish_short:
  "\<exists>zs. events (finish_short cfg env vid rc r) = events r @ zs
        \<and> inner_events vid zs
        \<and> (thrown (finish_short cfg env vid rc r) = None \<longrightarrow>
             map stage zs = [composing, rendering, complete])"
proof (cases "render env")
  case (Some t)
  let ?zs = "[mk_event vid composing 75 ''Composing video with music...'',
              mk_event vid rendering 80 ''Rendering final video...'']"
  from Some have "events (finish_short cfg env vid rc r) = events r @ ?zs"
    and "thrown (finish_short cfg env vid rc r) \<noteq> None"
    by (simp_all add: finish_short_def Let_def)
  moreover have "inner_events vid ?zs"
    by (simp add: inner_events_def mk_event_def)
  ultimately show ?thesis
    by (intro exI [of _ ?zs] conjI) auto
next
  case None
  let ?zs = "[mk_event vid composing 75 ''Composing video with music...'',
              mk_event vid rendering 80 ''Rendering final video...'',
              mk_event vid complete 100 ''Video creation complete!'']"
  from None have "events (finish_short cfg env vid rc r) = events r @ ?zs"
    by (simp add: finish_short_def Let_def)
  moreover have "inner_events vid ?zs"
    by (simp add: inner_events_def mk_event_def)
  moreover have "map stage ?zs = [composing, rendering, complete]"
    by (simp add: mk_event_def)
  ultimately show ?thesis
    by (intro exI [of _ ?zs] conjI impI)
qed

text \<open>
  The events of \<open>createShort\<close>: the start event, then events of the job that are neither
  \<open>queued\<close> nor \<open>error\<close>; when it does not throw, the stages are those of every scene
  followed by composing, rendering and complete.
\<close>

lemma events_createShort:
  "\<exists>ys. events (createShort cfg env vid xs rc) = start_event vid # ys
        \<and> inner_events vid ys
        \<and> (thrown (createShort cfg env vid xs rc) = None \<longrightarrow>
             map stage ys = scene_stages (length xs) @ [composing, rendering, complete])"
proof -
  define r0 :: Run where "r0 = \<lparr>events = [start_event vid], scenes = [], totalDuration = 0,
      tempFiles = [], created = [], removed = [], thrown = None\<rparr>"
  define sourceVideoPath where "sourceVideoPath =
      (if videoSource rc = Some ''plex'' \<and> truthy_string (plexMovieId rc)
       then (case getMovieFilePath env of Inl _ \<Rightarrow> None | Inr p \<Rightarrow> Some p)
       else None)"
  define dur where
    "dur = (if truthy_string sourceVideoPath then getVideoDuration env else Inr 0)"
  have ev0: "events r0 = [start_event vid]" by (simp add: r0_def)
  have unfold: "createShort cfg env vid xs rc =
      (case dur of
         Inl t \<Rightarrow> throw t r0
       | Inr movieDuration \<Rightarrow>
           let c = \<lparr>ctx_config = cfg, ctx_render = rc, ctx_videoId = vid,
                    ctx_sourceVideoPath = sourceVideoPath,
                    ctx_movieDuration = movieDuration, ctx_n = length xs\<rparr>;
               r1 = scenes_loop c (scene_env env) 0 xs r0
           in if thrown r1 \<noteq> None then r1 else finish_short cfg env vid rc r1)"
    unfolding createShort_def r0_def sourceVideoPath_def dur_def Let_def by (rule refl)
  show ?thesis
  proof (cases dur)
    case (Inl t)
    with unfold have "createShort cfg env vid xs rc = throw t r0" by simp
    then have "events (createShort cfg env vid xs rc) = start_event vid # []"
      and "thrown (createShort cfg env vid xs rc) \<noteq> None"
      using ev0 by simp_all
    then show ?thesis
      using inner_events_Nil by (intro exI [of _ "[]"] conjI) auto
  next
    case (Inr movieDuration)
    define c where "c = \<lparr>ctx_config = cfg, ctx_render = rc, ctx_videoId = vid,
                    ctx_sourceVideoPath = sourceVideoPath,
                    ctx_movieDuration = movieDuration, ctx_n = length xs\<rparr>"
    define r1 where "r1 = scenes_loop c (scene_env env) 0 xs r0"
    have vid: "ctx_videoId c = vid" by (simp add: c_def)
    from unfold Inr have cs: "createShort cfg env vid xs rc =
        (if thrown r1 \<noteq> None then r1 else finish_short cfg env vid rc r1)"
      by (simp add: c_def r1_def Let_def)
    from events_scenes_loop [of c "scene_env env" 0 xs r0]
    obtain ys where ys: "events r1 = events r0 @ ys" "scene_only vid ys"
      "thrown r1 = None \<longrightarrow> map stage ys = scene_stages (length xs)"
      unfolding r1_def vid by (elim exE conjE)
    show ?thesis
    proof (cases "thrown r1 = None")
      case False
      with cs have eq: "createShort cfg env vid xs rc = r1" by simp
      have "events (createShort cfg env vid xs rc) = start_event vid # ys"
        using eq ys(1) ev0 by simp
      moreover have "inner_events vid ys" using ys(2) by (rule scene_only_inner)
      moreover have "thrown (createShort cfg env vid xs rc) = None \<longrightarrow>
          map stage ys = scene_stages (length xs) @ [composing, rendering, complete]"
        using eq False by auto
      ultimately show ?thesis by (intro exI [of _ ys] conjI)
    next
      case True
      with cs have eq: "createShort cfg env vid xs rc = finish_short cfg env vid rc r1"
        by simp
      from events_finish_short [of cfg env vid rc r1]
      obtain zs where zs: "events (finish_short cfg env vid rc r1) = events r1 @ zs"
        "inner_events vid zs"
        "thrown (finish_short cfg env vid rc r1) = None \<longrightarrow>
             map stage zs = [composing, rendering, complete]"
        by (elim exE conjE)
      have "events (createShort cfg env vid xs rc) = start_event vid # (ys @ zs)"
        using eq zs(1) ys(1) ev0 by simp
      moreover have "inner_events vid (ys @ zs)"
        using ys(2) zs(2) by (simp add: inner_events_append scene_only_inner)
      moreover have "thrown (createShort cfg env vid xs rc) = None \<longrightarrow>
          map stage (ys @ zs) = scene_stages (length xs) @ [composing, rendering, complete]"
        using eq True ys(3) zs(3) by simp
      ultimately show ?thesis by (intro exI [of _ "ys @ zs"] conjI)
    qed
  qed
qed

lemma job_events_shape:
  "\<exists>ys. job_events cfg j env = start_event (job_id j) # ys
        \<and> (\<forall>e \<in> set ys. videoId e = job_id j \<and> stage e \<noteq> queued)
        \<and> stage (last (job_events cfg j env)) \<in> {complete, error}"
proof -
  let ?r = "createShort cfg env (job_id j) (job_sceneInput j) (job_config j)"
  from events_createShort [of cfg env "job_id j" "job_sceneInput j" "job_config j"]
  obtain ys where ys: "events ?r = start_event (job_id j) # ys"
    "inner_events (job_id j) ys"
    "thrown ?r = None \<longrightarrow>
       map stage ys = scene_stages (length (job_sceneInput j)) @ [composing, rendering, complete]"
    by (elim exE conjE)
  have inner: "videoId e = job_id j \<and> stage e \<noteq> queued" if "e \<in> set ys" for e
    using ys(2) that by (simp add: inner_events_def)
  show ?thesis
  proof (cases "thrown ?r")
    case None
    then have je: "job_events cfg j env = start_event (job_id j) # ys"
      using ys(1) by (simp add: job_events_def Let_def)
    from None ys(3) have st: "map stage ys
        = scene_stages (length (job_sceneInput j)) @ [composing, rendering, complete]"
      by simp
    then have "ys \<noteq> []" by auto
    then have "stage (last ys) = last (map stage ys)" by (simp add: last_map)
    also have "\<dots> = complete" by (simp add: st)
    finally have "stage (last (job_events cfg j env)) = complete"
      using je \<open>ys \<noteq> []\<close> by simp
    with je inner show ?thesis by (intro exI [of _ ys] conjI ballI) simp_all
  next
    case (Some t)
    then have je: "job_events cfg j env
        = start_event (job_id j) # (ys @ [error_event (job_id j) t])"
      using ys(1) by (simp add: job_events_def Let_def)
    have "stage (last (job_events cfg j env)) = error"
      by (simp add: je error_event_def)
    moreover have "videoId e = job_id j \<and> stage e \<noteq> queued"
      if "e \<in> set (ys @ [error_event (job_id j) t])" for e
      using that inner by (auto simp: error_event_def)
    ultimately show ?thesis
      using je by (intro exI [of _ "ys @ [error_event (job_id j) t]"] conjI ballI) simp_all
  qed
qed

lemma job_events_hd_tl:
  "job_events cfg j env = start_event (job_id j) # tl (job_events cfg j env)"
  using job_events_shape [of cfg j env] by (elim exE conjE) simp
lemma events_finish_short_first:
  "\<exists>zs. events (finish_short cfg env vid rc r)
        = events r @ [mk_event vid composing 75 ''Composing video with music...'',
                      mk_event vid rendering 80 ''Rendering final video...''] @ zs"
proof (cases "render env")
  case (Some t)
  then show ?thesis
    by (intro exI [of _ "[]"]) (simp add: finish_short_def Let_def)
next
  case None
  then show ?thesis
    by (intro exI [of _ "[mk_event vid complete 100 ''Video creation complete!'']"])
      (simp add: finish_short_def Let_def)
qed

lemma events_process_scene_first:
  "\<exists>zs. events (process_scene c i env r) = events r @ hd (scene_events c i) # zs"
proof -
  have three: "scene_events c i = hd (scene_events c i) # tl (scene_events c i)"
    by (simp add: scene_events_def Let_def)
  have "\<exists>zs. take k (scene_events c i) = hd (scene_events c i) # zs" if "0 < k" for k
  proof -
    from that obtain m where "k = Suc m" by (cases k) simp_all
    then have "take k (scene_events c i)
        = hd (scene_events c i) # take m (tl (scene_events c i))"
      by (subst three) simp
    then show ?thesis by (intro exI)
  qed
  then have p1: "\<exists>zs. take 1 (scene_events c i) = hd (scene_events c i) # zs"
    and p2: "\<exists>zs. take 2 (scene_events c i) = hd (scene_events c i) # zs"
    by simp_all
  from three have p3: "\<exists>zs. scene_events c i = hd (scene_events c i) # zs"
    by (intro exI)
  show ?thesis
  proof (cases "tts_generate env")
    case (Inl t)
    from process_scene_tts_fails(1) [OF this, of c i r] p1 show ?thesis by auto
  next
    case tts: (Inr len)
    show ?thesis
    proof (cases "saveNormalizedAudio env")
      case (Some t)
      from process_scene_normalize_fails(1) [OF tts this, of c i r] p1 show ?thesis by auto
    next
      case norm: None
      show ?thesis
      proof (cases "CreateCaption env")
        case (Inl t)
        from process_scene_caption_fails(1) [OF tts norm this, of c i r] p2
        show ?thesis by auto
      next
        case cap: (Inr caps)
        show ?thesis
        proof (cases "saveToMp3 env")
          case (Some t)
          from process_scene_mp3_fails(1) [OF tts norm cap this, of c i r] p2
          show ?thesis by auto
        next
          case None
          from process_scene_reaches_fetch [OF tts norm cap None, of c i r] p3
          show ?thesis by auto
        qed
      qed
    qed
  qed
qed

text \<open>
  Whatever the collaborators return, the events of a job begin with the events of its
  synchronous start.
\<close>

lemma createShort_sync_prefix:
  "\<exists>ys. events (createShort cfg env (job_id j) (job_sceneInput j) (job_config j))
        = sync_prefix j @ ys"
proof (cases "videoSource (job_config j) = Some ''plex''
    \<and> truthy_string (plexMovieId (job_config j))")
  case True
  then have sp: "sync_prefix j = [start_event (job_id j)]"
    by (simp add: sync_prefix_def Let_def)
  from events_createShort [of cfg env "job_id j" "job_sceneInput j" "job_config j"]
  obtain ys where "events (createShort cfg env (job_id j) (job_sceneInput j) (job_config j))
      = start_event (job_id j) # ys"
    by (elim exE conjE)
  with sp show ?thesis by (intro exI [of _ ys]) simp
next
  case False
  define r0 :: Run where "r0 = \<lparr>events = [start_event (job_id j)], scenes = [],
      totalDuration = 0, tempFiles = [], created = [], removed = [], thrown = None\<rparr>"
  define c where "c = \<lparr>ctx_config = cfg, ctx_render = job_config j, ctx_videoId = job_id j,
      ctx_sourceVideoPath = None, ctx_movieDuration = 0,
      ctx_n = length (job_sceneInput j)\<rparr>"
  define r1 where "r1 = scenes_loop c (scene_env env) 0 (job_sceneInput j) r0"
  have ev0: "events r0 = [start_event (job_id j)]" and th0: "thrown r0 = None"
    by (simp_all add: r0_def)
  have no_movie: "(if videoSource (job_config j) = Some ''plex''
          \<and> truthy_string (plexMovieId (job_config j))
        then (case getMovieFilePath env of Inl _ \<Rightarrow> None | Inr p \<Rightarrow> Some p)
        else None) = None"
    using False by (rule if_not_P)
  have falsy: "truthy_string None = False"
    by (simp add: truthy_string_def)
  have cs: "createShort cfg env (job_id j) (job_sceneInput j) (job_config j)
      = (if thrown r1 \<noteq> None then r1
         else finish_short cfg env (job_id j) (job_config j) r1)"
    by (simp add: createShort_def Let_def no_movie falsy r0_def c_def r1_def)
  show ?thesis
  proof (cases "job_sceneInput j")
    case Nil
    have sp: "sync_prefix j
        = [start_event (job_id j),
           mk_event (job_id j) composing 75 ''Composing video with music...'',
           mk_event (job_id j) rendering 80 ''Rendering final video...'']"
      unfolding sync_prefix_def Let_def if_not_P [OF False] using Nil by simp
    from Nil have "r1 = r0" by (simp add: r1_def)
    with cs th0 have "createShort cfg env (job_id j) (job_sceneInput j) (job_config j)
        = finish_short cfg env (job_id j) (job_config j) r0"
      by simp
    moreover from events_finish_short_first [of cfg env "job_id j" "job_config j" r0]
    obtain zs where "events (finish_short cfg env (job_id j) (job_config j) r0)
        = events r0 @ [mk_event (job_id j) composing 75 ''Composing video with music...'',
                       mk_event (job_id j) rendering 80 ''Rendering final video...''] @ zs"
      by (elim exE)
    ultimately show ?thesis
      using sp ev0 by (intro exI [of _ zs]) simp
  next
    case (Cons x xs)
    have sp: "sync_prefix j = [start_event (job_id j), hd (scene_events c 0)]"
      unfolding sync_prefix_def Let_def if_not_P [OF False] using Cons
      by (simp add: scene_events_def c_def Let_def)
    let ?r' = "process_scene c 0 (scene_env env 0) r0"
    from events_process_scene_first [of c 0 "scene_env env 0" r0]
    obtain zs where zs: "events ?r' = events r0 @ hd (scene_events c 0) # zs"
      by (elim exE)
    have "\<exists>ws. events r1 = events ?r' @ ws"
    proof (cases "thrown ?r' = None")
      case False
      then have "r1 = ?r'"
        unfolding r1_def Cons using scenes_loop_stop [of c 0 "scene_env env" r0 x xs] by simp
      then show ?thesis by simp
    next
      case True
      then have "r1 = scenes_loop c (scene_env env) (0 + 1) xs ?r'"
        unfolding r1_def Cons by (rule scenes_loop_continue)
      with events_scenes_loop [of c "scene_env env" "0 + 1" xs ?r'] show ?thesis
        by auto
    qed
    then obtain ws where ws: "events r1 = events ?r' @ ws" by (elim exE)
    have "\<exists>vs. events (createShort cfg env (job_id j) (job_sceneInput j) (job_config j))
        = events r1 @ vs"
    proof (cases "thrown r1 = None")
      case False
      with cs show ?thesis by simp
    next
      case True
      with cs events_finish_short [of cfg env "job_id j" "job_config j" r1]
      show ?thesis by auto
    qed
    then obtain vs where "events (createShort cfg env (job_id j) (job_sceneInput j)
        (job_config j)) = events r1 @ vs"
      by (elim exE)
    with ws zs ev0 sp show ?thesis
      by (intro exI [of _ "zs @ ws @ vs"]) simp
  qed
qed

lemma job_events_sync_prefix:
  "job_events cfg j env
     = sync_prefix j @ drop (length (sync_prefix j)) (job_events cfg j env)"
proof -
  from createShort_sync_prefix [of cfg env j]
  obtain ys where "events (createShort cfg env (job_id j) (job_sceneInput j) (job_config j))
      = sync_prefix j @ ys"
    by (elim exE)
  then have "\<exists>zs. job_events cfg j env = sync_prefix j @ zs"
    by (simp add: job_events_def Let_def)
  then obtain zs where "job_events cfg j env = sync_prefix j @ zs" by (elim exE)
  then show ?thesis by simp
qed

lemma sync_prefix_stages:
  "e \<in> set (sync_prefix j) \<Longrightarrow> stage e \<noteq> complete \<and> stage e \<noteq> error"
  by (auto simp: sync_prefix_def Let_def start_event_def mk_event_def split: if_splits)

text \<open>
  The events that follow the synchronous start of a job are not empty, and the last of
  them is the final \<open>complete\<close> or \<open>error\<close> of the job.
\<close>

lemma job_events_rest:
  "drop (length (sync_prefix j)) (job_events cfg j env) \<noteq> []
   \<and> stage (last (drop (length (sync_prefix j)) (job_events cfg j env)))
       \<in> {complete, error}"
proof -
  let ?rest = "drop (length (sync_prefix j)) (job_events cfg j env)"
  from job_events_shape [of cfg j env]
  have final: "stage (last (job_events cfg j env)) \<in> {complete, error}"
    and nonempty: "job_events cfg j env \<noteq> []"
    by (elim exE conjE, simp)+
  have ne: "?rest \<noteq> []"
  proof
    assume "?rest = []"
    with job_events_sync_prefix [of cfg j env]
    have eq: "job_events cfg j env = sync_prefix j" by simp
    with nonempty have "last (job_events cfg j env) \<in> set (sync_prefix j)"
      by (metis last_in_set)
    with sync_prefix_stages final show False by blast
  qed
  then have "last (job_events cfg j env) = last ?rest"
    by (subst job_events_sync_prefix [of cfg j env]) simp
  with final ne show ?thesis by simp
qed

lemma queue_addToQueue: "queue (addToQueue j s) = queue s @ [j]"
  by (simp add: addToQueue_def processQueue_begin_def Let_def split: list.splits)

lemma log_addToQueue:
  "progress_log (addToQueue j s)
     = progress_log s @ (if queue s = [] then sync_prefix j else [])"
  by (cases "queue s") (simp_all add: addToQueue_def processQueue_begin_def Let_def)

lemma queue_settle: "queue (processQueue_settle cfg env s) = tl (queue s)"
  by (cases "queue s")
    (simp_all add: processQueue_settle_def processQueue_begin_def Let_def split: list.splits)

lemma log_settle:
  assumes "queue s = j # rest"
  shows "progress_log (processQueue_settle cfg env s)
           = progress_log s @ drop (length (sync_prefix j)) (job_events cfg j env)
             @ head_started rest"
  using assms
  by (cases rest)
    (simp_all add: processQueue_settle_def processQueue_begin_def head_started_def Let_def)

lemma submitted_append: "submitted (ins @ ins') = submitted ins @ submitted ins'"
  by (induction ins rule: submitted.induct) simp_all

text \<open>
  From a state whose log ends with the synchronous start of the head job, every run
  completes the waiting jobs oldest first, and appends their events job after job.
\<close>

lemma run_from:
  "progress_log s = L @ head_started (queue s) \<Longrightarrow>
     map fst (settled (queue s) ins) @ queue (foldl (step cfg) s ins)
       = queue s @ submitted ins
     \<and> progress_log (foldl (step cfg) s ins)
         = L @ blocks cfg (settled (queue s) ins)
           @ head_started (queue (foldl (step cfg) s ins))"
proof (induction ins arbitrary: s L)
  case Nil
  then show ?case by (simp add: blocks_def)
next
  case (Cons x ins)
  show ?case
  proof (cases x)
    case (Submit j')
    let ?s = "addToQueue j' s"
    have "progress_log ?s = L @ head_started (queue ?s)"
      using Cons.prems
      by (cases "queue s") (simp_all add: log_addToQueue queue_addToQueue head_started_def)
    from Cons.IH [OF this] Submit show ?thesis
      by (simp add: queue_addToQueue)
  next
    case (Settle env)
    show ?thesis
    proof (cases "queue s")
      case Nil
      then have same: "processQueue_settle cfg env s = s"
        by (simp add: processQueue_settle_def)
      from Cons.IH [OF Cons.prems] Settle Nil same show ?thesis by simp
    next
      case (Cons j' rest)
      let ?s = "processQueue_settle cfg env s"
      have q: "queue ?s = rest" using Cons by (simp add: queue_settle)
      have "progress_log ?s
          = L @ (sync_prefix j' @ drop (length (sync_prefix j')) (job_events cfg j' env))
            @ head_started rest"
        using Cons.prems Cons by (simp add: log_settle [OF Cons] head_started_def)
      then have "progress_log ?s = (L @ job_events cfg j' env) @ head_started (queue ?s)"
        using job_events_sync_prefix [of cfg j' env] q by simp
      from Cons.IH [OF this] Settle Cons q show ?thesis
        by (simp add: blocks_def)
    qed
  qed
qed

text \<open>
  C5. A submitted job goes to the tail of the queue, and its processing starts at once
  exactly when the queue was empty. When the job at the head settles, it leaves the
  queue, the rest of its events, ending with its \<open>complete\<close> or \<open>error\<close>, is logged, and
  only then the next job starts. In every run each settling completes the oldest waiting
  job, so the jobs leave the queue in the order of submission, and the log consists of the
  events of the jobs that have left, one whole job after the other, followed by the
  synchronous start of the job at the head of the queue: every event of a job, its final
  event included, precedes the first event of every job submitted after it, and the
  events of two jobs never interleave.
\<close>

theorem queue_fifo_single_worker:
  "queue (addToQueue j s) = queue s @ [j]
   \<and> progress_log (addToQueue j s)
       = progress_log s @ (if queue s = [] then sync_prefix j else [])
   \<and> queue (processQueue_settle cfg env s) = tl (queue s)
   \<and> (queue s = j' # rest \<longrightarrow>
        progress_log (processQueue_settle cfg env s)
          = progress_log s @ drop (length (sync_prefix j')) (job_events cfg j' env)
            @ head_started rest)
   \<and> map fst (settled [] ins) @ queue (run_inputs cfg ins) = submitted ins
   \<and> progress_log (run_inputs cfg ins)
       = blocks cfg (settled [] ins) @ head_started (queue (run_inputs cfg ins))
   \<and> job_events cfg j env
       = sync_prefix j @ drop (length (sync_prefix j)) (job_events cfg j env)
   \<and> drop (length (sync_prefix j)) (job_events cfg j env) \<noteq> []
   \<and> stage (last (drop (length (sync_prefix j)) (job_events cfg j env))) \<in> {complete, error}
   \<and> (\<exists>ys. job_events cfg j env = start_event (job_id j) # ys
          \<and> (\<forall>e \<in> set ys. videoId e = job_id j \<and> stage e \<noteq> queued))"
proof -
  have run: "map fst (settled [] ins) @ queue (run_inputs cfg ins) = submitted ins
      \<and> progress_log (run_inputs cfg ins)
          = blocks cfg (settled [] ins) @ head_started (queue (run_inputs cfg ins))"
    using run_from [of initial "[]" ins cfg]
    by (simp add: run_inputs_def initial_def head_started_def)
  have shape: "\<exists>ys. job_events cfg j env = start_event (job_id j) # ys
          \<and> (\<forall>e \<in> set ys. videoId e = job_id j \<and> stage e \<noteq> queued)"
    using job_events_shape [of cfg j env] by (elim exE conjE) (intro exI conjI)
  have settle_log: "queue s = j' # rest \<longrightarrow>
        progress_log (processQueue_settle cfg env s)
          = progress_log s @ drop (length (sync_prefix j')) (job_events cfg j' env)
            @ head_started rest"
    using log_settle [of s j' rest cfg env] by (intro impI)
  from queue_addToQueue [of j s] log_addToQueue [of j s] queue_settle [of cfg env s]
    settle_log run job_events_sync_prefix [of cfg j env] job_events_rest [of j cfg env] shape
  show ?thesis by (intro conjI) (elim conjE, assumption)+
qed

lemma show_nat_small:
  "show_nat 0 = ''0''" "show_nat (Suc 0) = ''1''" "show_nat 1 = ''1''" "show_nat 2 = ''2''"
  by code_simp+

text \<open>The definitions that evaluate \<open>createShort\<close> and a run on the concrete collaborators.\<close>

lemmas createShort_eval = createShort_def plain_config_def truthy_string_def job_of_def
  whisper_fails_at_def ok_env_def ok_scene_def test_config_def process_scene_def Let_def
  fetch_video_def fetch_by_download_def truthy_def path_join_def normalize_path_def
  show_nat_small
  numeral_2_eq_2 finish_short_def getVideoPath_def mk_event_def start_event_def

lemmas run_eval = run_inputs_def two_jobs_def initial_def addToQueue_def
  processQueue_begin_def processQueue_settle_def job_events_def error_event_def
  sync_prefix_def

text \<open>
  \<open>createShort\<close> adds the back padding to the audio length of the last scene before it
  hands the scenes to the renderer, together with the same \<open>paddingBack\<close>.
\<close>

lemma createShort_pads_last_audio:
  "map (\<lambda>s. duration (audio s))
     (scenes (createShort test_config (ok_env ''B'') ''B'' (job_sceneInput (job_of ''B'' 2))
        (plain_config\<lparr>paddingBack := Some 1500\<rparr>)))
   = [4, 4 + 1500 / 1000]"
  by (simp add: createShort_eval)

lemma non_decreasing_success_stages:
  "non_decreasing (queued # scene_stages n @ [composing, rendering, complete]) \<longleftrightarrow> n \<le> 1"
proof (cases n)
  case 0
  then show ?thesis by (simp add: non_decreasing_def scene_stages_def)
next
  case (Suc m)
  show ?thesis
  proof (cases m)
    case 0
    with Suc show ?thesis by (simp add: non_decreasing_def scene_stages_def)
  next
    case (Suc k)
    with \<open>n = Suc m\<close> show ?thesis by (simp add: non_decreasing_def scene_stages_def)
  qed
qed

text \<open>
  C7, as stated, fails for a job with two scenes: all its calls succeed, and after the
  stage \<open>fetching_videos\<close> of the first scene comes \<open>generating_audio\<close> of the second.
\<close>

theorem stages_two_scenes_counterexample:
  "thrown (createShort test_config (ok_env ''A'') ''A'' (job_sceneInput (job_of ''A'' 2))
      plain_config) = None
   \<and> map stage (events (createShort test_config (ok_env ''A'') ''A''
        (job_sceneInput (job_of ''A'' 2)) plain_config))
     = [queued, generating_audio, transcribing, fetching_videos,
        generating_audio, transcribing, fetching_videos, composing, rendering, complete]
   \<and> \<not> non_decreasing (map stage (events (createShort test_config (ok_env ''A'') ''A''
        (job_sceneInput (job_of ''A'' 2)) plain_config)))"
  by (simp add: createShort_eval non_decreasing_def)

text \<open>
  C7, amended. A job that completes successfully emits \<open>queued\<close>, then for every scene
  in turn \<open>generating_audio\<close>, \<open>transcribing\<close>, \<open>fetching_videos\<close>, then \<open>composing\<close>,
  \<open>rendering\<close>, \<open>complete\<close>; this sequence is non-decreasing in the listed order exactly
  when the job has at most one scene. \<open>createShort\<close> itself never emits \<open>error\<close>; a job
  has an \<open>error\<close> event exactly when \<open>createShort\<close> throws, and then only as its last
  event.
\<close>

theorem stages_of_successful_job:
  "(thrown (createShort cfg env vid xs rc) = None \<longrightarrow>
      map stage (events (createShort cfg env vid xs rc))
        = queued # scene_stages (length xs) @ [composing, rendering, complete]
      \<and> (non_decreasing (map stage (events (createShort cfg env vid xs rc)))
           \<longleftrightarrow> length xs \<le> 1))
   \<and> error \<notin> stage ` set (events (createShort cfg env vid xs rc))
   \<and> (error \<in> stage ` set (job_events cfg j env) \<longleftrightarrow>
        thrown (createShort cfg env (job_id j) (job_sceneInput j) (job_config j)) \<noteq> None)
   \<and> error \<notin> stage ` set (butlast (job_events cfg j env))"
proof -
  have no_error: "error \<notin> stage ` set (events (createShort cfg' env' vid' xs' rc'))"
    for cfg' env' vid' xs' rc'
  proof -
    from events_createShort [of cfg' env' vid' xs' rc']
    obtain ys where ys: "events (createShort cfg' env' vid' xs' rc') = start_event vid' # ys"
      "inner_events vid' ys"
      by (elim exE conjE)
    have "stage (start_event vid') \<noteq> error"
      by (simp add: start_event_def mk_event_def)
    moreover have "stage e \<noteq> error" if "e \<in> set ys" for e
      using that ys(2) by (simp add: inner_events_def)
    ultimately have "\<forall>e \<in> set (events (createShort cfg' env' vid' xs' rc')). stage e \<noteq> error"
      using ys(1) by simp
    then show ?thesis by (metis imageE)
  qed
  have success: "map stage (events (createShort cfg env vid xs rc))
        = queued # scene_stages (length xs) @ [composing, rendering, complete]"
    if "thrown (createShort cfg env vid xs rc) = None"
  proof -
    from events_createShort [of cfg env vid xs rc]
    obtain ys where ys: "events (createShort cfg env vid xs rc) = start_event vid # ys"
      "thrown (createShort cfg env vid xs rc) = None \<longrightarrow>
             map stage ys = scene_stages (length xs) @ [composing, rendering, complete]"
      by (elim exE conjE)
    with that show ?thesis by (simp add: start_event_def mk_event_def)
  qed
  let ?r = "createShort cfg env (job_id j) (job_sceneInput j) (job_config j)"
  have last_only: "error \<notin> stage ` set (butlast (job_events cfg j env))"
    using no_error [of cfg env "job_id j" "job_sceneInput j" "job_config j"]
    by (cases "thrown ?r") (auto simp: job_events_def Let_def dest: in_set_butlastD)
  have iff: "error \<in> stage ` set (job_events cfg j env) \<longleftrightarrow> thrown ?r \<noteq> None"
    using no_error [of cfg env "job_id j" "job_sceneInput j" "job_config j"]
    by (cases "thrown ?r") (auto simp: job_events_def Let_def error_event_def)
  show ?thesis
    using success non_decreasing_success_stages [of "length xs"] no_error last_only iff
    by simp
qed

theorem stages_of_successful_job_witness:
  "thrown (createShort test_config (ok_env ''B'') ''B'' (job_sceneInput (job_of ''B'' 1))
      plain_config) = None
   \<and> map stage (events (createShort test_config (ok_env ''B'') ''B''
        (job_sceneInput (job_of ''B'' 1)) plain_config))
     = [queued, generating_audio, transcribing, fetching_videos, composing, rendering, complete]
   \<and> non_decreasing (map stage (events (createShort test_config (ok_env ''B'') ''B''
        (job_sceneInput (job_of ''B'' 1)) plain_config)))
   \<and> length (job_sceneInput (job_of ''B'' 1)) \<le> 1"
proof -
  have ok: "thrown (createShort test_config (ok_env ''B'') ''B''
      (job_sceneInput (job_of ''B'' 1)) plain_config) = None"
    by (simp add: createShort_eval)
  have len: "length (job_sceneInput (job_of ''B'' 1)) = 1"
    by (simp add: job_of_def)
  let ?r = "createShort test_config (ok_env ''B'') ''B''
        (job_sceneInput (job_of ''B'' 1)) plain_config"
  have "thrown ?r = None \<longrightarrow>
      map stage (events ?r)
        = queued # scene_stages (length (job_sceneInput (job_of ''B'' 1)))
            @ [composing, rendering, complete]
      \<and> (non_decreasing (map stage (events ?r))
          \<longleftrightarrow> length (job_sceneInput (job_of ''B'' 1)) \<le> 1)"
    by (rule conjunct1 [OF stages_of_successful_job [of test_config "ok_env ''B''" "''B''"
        "job_sceneInput (job_of ''B'' 1)" plain_config "job_of ''B'' 1"]])
  from this ok
  have "map stage (events ?r)
        = queued # scene_stages (length (job_sceneInput (job_of ''B'' 1)))
            @ [composing, rendering, complete]
      \<and> (non_decreasing (map stage (events ?r))
          \<longleftrightarrow> length (job_sceneInput (job_of ''B'' 1)) \<le> 1)"
    by (rule mp)
  then have a: "map stage (events ?r)
        = queued # scene_stages (length (job_sceneInput (job_of ''B'' 1)))
            @ [composing, rendering, complete]"
    and b: "non_decreasing (map stage (events ?r))
          \<longleftrightarrow> length (job_sceneInput (job_of ''B'' 1)) \<le> 1"
    by (rule conjunct1, rule conjunct2)
  have ss: "scene_stages (length (job_sceneInput (job_of ''B'' 1)))
      = [generating_audio, transcribing, fetching_videos]"
    by (simp add: job_of_def scene_stages_def)
  from a have stages: "map stage (events ?r)
      = [queued, generating_audio, transcribing, fetching_videos, composing, rendering, complete]"
    by (simp only: ss append_Cons append_Nil)
  from len have short: "length (job_sceneInput (job_of ''B'' 1)) \<le> 1" by simp
  with b have sorted: "non_decreasing (map stage (events ?r))" by (rule iffD2)
  from ok stages sorted short show ?thesis by (intro conjI)
qed

text \<open>
  C6. The claim: when an external call fails, the job is failed, one \<open>error\<close> event with
  the cause is emitted, the temp files the job has created are purged, and the next job
  still completes. In the run \<open>two_jobs\<close> the second transcription of job A fails: A gets
  its one \<open>error\<close> event and the status \<open>failed\<close>, and job B becomes \<open>ready\<close>; but no file
  of A is removed, and the four temp files it has written stay on disk, whereas job B,
  which succeeds, removes all of its temp files.
\<close>

theorem failed_job_keeps_temp_files:
  "created (createShort test_config (whisper_fails_at 1 ''A'') ''A''
       (job_sceneInput (job_of ''A'' 2)) plain_config)
     = [''tmp/A0.wav'', ''tmp/A0.mp3'', ''tmp/A0v.mp4'', ''tmp/A1.wav'']
   \<and> removed (createShort test_config (whisper_fails_at 1 ''A'') ''A''
       (job_sceneInput (job_of ''A'' 2)) plain_config) = []
   \<and> ''tmp/A0.wav'' \<in> disk (run_inputs test_config two_jobs)
   \<and> ''tmp/A0.mp3'' \<in> disk (run_inputs test_config two_jobs)
   \<and> ''tmp/A0v.mp4'' \<in> disk (run_inputs test_config two_jobs)
   \<and> ''tmp/A1.wav'' \<in> disk (run_inputs test_config two_jobs)
   \<and> filter (\<lambda>e. stage e = error) (progress_log (run_inputs test_config two_jobs))
       = [\<lparr>videoId = ''A'', stage = error, progress = 0, message = ''Failed to create video'',
           error_message = Some ''There was an error with WhisperCpp''\<rparr>]
   \<and> queue (run_inputs test_config two_jobs) = []
   \<and> status ''videos'' (queue (run_inputs test_config two_jobs))
        (disk (run_inputs test_config two_jobs)) ''A'' = failed
   \<and> status ''videos'' (queue (run_inputs test_config two_jobs))
        (disk (run_inputs test_config two_jobs)) ''B'' = ready
   \<and> removed (createShort test_config (ok_env ''B'') ''B''
       (job_sceneInput (job_of ''B'' 1)) plain_config)
     = tempFiles (createShort test_config (ok_env ''B'') ''B''
       (job_sceneInput (job_of ''B'' 1)) plain_config)"
  by (simp add: createShort_eval run_eval status_def)

theorem queue_fifo_single_worker_witness:
  "queue (addToQueue (job_of ''A'' 2) initial) = job_of ''A'' 2 # []
   \<and> map (\<lambda>e. (videoId e, stage e)) (progress_log (addToQueue (job_of ''A'' 2) initial))
       = [(''A'', queued), (''A'', generating_audio)]
   \<and> progress_log (processQueue_settle test_config (whisper_fails_at 1 ''A'')
          (addToQueue (job_of ''A'' 2) initial))
       = progress_log (addToQueue (job_of ''A'' 2) initial)
         @ drop (length (sync_prefix (job_of ''A'' 2)))
             (job_events test_config (job_of ''A'' 2) (whisper_fails_at 1 ''A''))
         @ head_started []
   \<and> map (\<lambda>e. (videoId e, stage e)) (progress_log (run_inputs test_config two_jobs))
       = [(''A'', queued), (''A'', generating_audio), (''A'', transcribing),
          (''A'', fetching_videos), (''A'', generating_audio), (''A'', transcribing),
          (''A'', error), (''B'', queued), (''B'', generating_audio), (''B'', transcribing),
          (''B'', fetching_videos), (''B'', composing), (''B'', rendering), (''B'', complete)]
   \<and> map fst (settled [] two_jobs) = [job_of ''A'' 2, job_of ''B'' 1]
   \<and> map fst (settled [] two_jobs) @ queue (run_inputs test_config two_jobs)
       = submitted two_jobs
   \<and> error_event ''A'' (ErrorInstance ''There was an error with WhisperCpp'')
        \<in> set (tl (job_events test_config (job_of ''A'' 2) (whisper_fails_at 1 ''A'')))
   \<and> videoId (error_event ''A'' (ErrorInstance ''There was an error with WhisperCpp''))
       = job_id (job_of ''A'' 2)"
proof -
  let ?A = "job_of ''A'' 2"
  let ?envA = "whisper_fails_at 1 ''A''"
  let ?s = "addToQueue ?A initial"
  have head: "queue ?s = ?A # []"
    by (simp add: addToQueue_def initial_def processQueue_begin_def Let_def)
  have start: "map (\<lambda>e. (videoId e, stage e)) (progress_log ?s)
      = [(''A'', queued), (''A'', generating_audio)]"
    by (simp add: createShort_eval run_eval)
  have log: "map (\<lambda>e. (videoId e, stage e)) (progress_log (run_inputs test_config two_jobs))
     = [(''A'', queued), (''A'', generating_audio), (''A'', transcribing),
        (''A'', fetching_videos), (''A'', generating_audio), (''A'', transcribing),
        (''A'', error), (''B'', queued), (''B'', generating_audio), (''B'', transcribing),
        (''B'', fetching_videos), (''B'', composing), (''B'', rendering), (''B'', complete)]"
    by (simp add: createShort_eval run_eval)
  have order: "map fst (settled [] two_jobs) = [?A, job_of ''B'' 1]"
    by (simp add: two_jobs_def)
  have mem: "error_event ''A'' (ErrorInstance ''There was an error with WhisperCpp'')
        \<in> set (tl (job_events test_config ?A ?envA))"
    by (simp add: createShort_eval run_eval)
  note inst = queue_fifo_single_worker [where j = ?A and s = ?s and cfg = test_config
      and env = ?envA and j' = ?A and rest = "[]" and ins = two_jobs]
  from inst have "queue ?s = ?A # [] \<longrightarrow>
        progress_log (processQueue_settle test_config ?envA ?s)
          = progress_log ?s @ drop (length (sync_prefix ?A)) (job_events test_config ?A ?envA)
            @ head_started []"
    by (elim conjE)
  from this head have settle: "progress_log (processQueue_settle test_config ?envA ?s)
          = progress_log ?s @ drop (length (sync_prefix ?A)) (job_events test_config ?A ?envA)
            @ head_started []"
    by (rule mp)
  from inst have cover: "map fst (settled [] two_jobs) @ queue (run_inputs test_config two_jobs)
       = submitted two_jobs"
    by (elim conjE)
  from inst obtain ys where ys: "job_events test_config ?A ?envA = start_event (job_id ?A) # ys"
    "\<forall>e \<in> set ys. videoId e = job_id ?A \<and> stage e \<noteq> queued"
    by (elim exE conjE)
  from ys(1) have "ys = tl (job_events test_config ?A ?envA)" by simp
  with mem ys(2)
  have vid: "videoId (error_event ''A'' (ErrorInstance ''There was an error with WhisperCpp''))
      = job_id ?A"
    by blast
  from head start settle log order cover mem vid show ?thesis by (intro conjI)
qed
subsection \<open>Caption pages\<close>

lemma page_tokens_page_of: "page_tokens (page_of ls) = concat (map texts ls)"
  by (simp add: page_tokens_def page_of_def)

lemma page_bounds_ok_page_of:
  "cur \<noteq> [] \<Longrightarrow> page_bounds_ok (page_of (ls @ [\<lparr>texts = cur\<rparr>]))"
  by (simp add: page_bounds_ok_def page_tokens_page_of) (simp add: page_of_def)

text \<open>
  The loop keeps every token, in order: the tokens of the pages it returns are those of
  the finished pages, of the finished lines, of the current line and of the rest.
\<close>

lemma paginate_loop_tokens:
  "cur = [] \<longrightarrow> ls = [] \<Longrightarrow>
     concat (map page_tokens (paginate_loop lml lc gap pages ls cur ts))
       = concat (map page_tokens pages) @ concat (map texts ls) @ cur @ ts"
proof (induction ts arbitrary: pages ls cur)
  case Nil
  then show ?case by (simp add: page_tokens_page_of)
next
  case (Cons t ts)
  show ?case
  proof (cases "cur = []")
    case True
    with Cons.prems have "ls = []" by simp
    with True Cons.IH [of "[t]" ls pages] show ?thesis by simp
  next
    case False
    then show ?thesis
      using Cons.IH [of "[t]" "[]" "pages @ [page_of (ls @ [\<lparr>texts = cur\<rparr>])]"]
        Cons.IH [of "cur @ [t]" ls pages]
        Cons.IH [of "[t]" "ls @ [\<lparr>texts = cur\<rparr>]" pages]
      by (simp add: page_tokens_page_of)
  qed
qed

lemma paginate_loop_bounds:
  "\<forall>p \<in> set pages. page_bounds_ok p \<Longrightarrow>
     \<forall>p \<in> set (paginate_loop lml lc gap pages ls cur ts). page_bounds_ok p"
proof (induction ts arbitrary: pages ls cur)
  case Nil
  then show ?case by (simp add: page_bounds_ok_page_of)
next
  case (Cons t ts)
  show ?case
  proof (cases "cur = []")
    case True
    with Cons.IH [of pages ls "[t]"] Cons.prems show ?thesis by simp
  next
    case False
    then have closed: "\<forall>p \<in> set (pages @ [page_of (ls @ [\<lparr>texts = cur\<rparr>])]). page_bounds_ok p"
      using Cons.prems by (simp add: page_bounds_ok_page_of)
    from False show ?thesis
      using Cons.IH [OF closed, of "[]" "[t]"] Cons.IH [OF Cons.prems, of ls "cur @ [t]"]
        Cons.IH [OF Cons.prems, of "ls @ [\<lparr>texts = cur\<rparr>]" "[t]"]
      by simp
  qed
qed

text \<open>
  C4. The tokens of all lines of all pages, in order, are the input tokens; every page
  has a token, starts at the start of its first token and ends at the end of its last;
  no tokens give no pages.
\<close>

theorem pagination_covers_tokens:
  "concat (map page_tokens (createCaptionPages caps lml lc gap)) = caps
   \<and> (\<forall>p \<in> set (createCaptionPages caps lml lc gap).
         page_tokens p \<noteq> []
         \<and> page_startMs p = startMs (hd (page_tokens p))
         \<and> page_endMs p = endMs (last (page_tokens p)))
   \<and> createCaptionPages [] lml lc gap = []"
proof -
  have "concat (map page_tokens (createCaptionPages caps lml lc gap)) = caps"
    using paginate_loop_tokens [of "[]" "[]" lml lc gap "[]" caps]
    by (simp add: createCaptionPages_def)
  moreover have "\<forall>p \<in> set (createCaptionPages caps lml lc gap). page_bounds_ok p"
    using paginate_loop_bounds [of "[]" lml lc gap "[]" "[]" caps]
    by (simp add: createCaptionPages_def)
  moreover have "createCaptionPages [] lml lc gap = []"
    by (simp add: createCaptionPages_def)
  ultimately show ?thesis by (simp add: page_bounds_ok_def)
qed

theorem pagination_covers_tokens_witness:
  "createCaptionPages [token ''hi'' 0 300, token ''there'' 500 900] 30 1 100
     = [\<lparr>page_startMs = 0, page_endMs = 300, lines = [\<lparr>texts = [token ''hi'' 0 300]\<rparr>]\<rparr>,
        \<lparr>page_startMs = 500, page_endMs = 900, lines = [\<lparr>texts = [token ''there'' 500 900]\<rparr>]\<rparr>]
   \<and> createCaptionPages [token ''hi'' 0 300, token ''there'' 500 900] 30 1 1000
     = [\<lparr>page_startMs = 0, page_endMs = 900,
         lines = [\<lparr>texts = [token ''hi'' 0 300, token ''there'' 500 900]\<rparr>]\<rparr>]
   \<and> concat (map page_tokens
        (createCaptionPages [token ''hi'' 0 300, token ''there'' 500 900] 30 1 100))
     = [token ''hi'' 0 300, token ''there'' 500 900]
   \<and> page_of [\<lparr>texts = [token ''there'' 500 900]\<rparr>]
        \<in> set (createCaptionPages [token ''hi'' 0 300, token ''there'' 500 900] 30 1 100)
   \<and> page_tokens (page_of [\<lparr>texts = [token ''there'' 500 900]\<rparr>]) \<noteq> []
   \<and> page_startMs (page_of [\<lparr>texts = [token ''there'' 500 900]\<rparr>])
       = startMs (hd (page_tokens (page_of [\<lparr>texts = [token ''there'' 500 900]\<rparr>])))
   \<and> page_endMs (page_of [\<lparr>texts = [token ''there'' 500 900]\<rparr>])
       = endMs (last (page_tokens (page_of [\<lparr>texts = [token ''there'' 500 900]\<rparr>])))"
proof -
  let ?p = "page_of [\<lparr>texts = [token ''there'' 500 900]\<rparr>]"
  have two: "createCaptionPages [token ''hi'' 0 300, token ''there'' 500 900] 30 1 100
     = [\<lparr>page_startMs = 0, page_endMs = 300, lines = [\<lparr>texts = [token ''hi'' 0 300]\<rparr>]\<rparr>,
        \<lparr>page_startMs = 500, page_endMs = 900, lines = [\<lparr>texts = [token ''there'' 500 900]\<rparr>]\<rparr>]"
    by (simp add: createCaptionPages_def page_of_def token_def line_length_def)
  have one: "createCaptionPages [token ''hi'' 0 300, token ''there'' 500 900] 30 1 1000
     = [\<lparr>page_startMs = 0, page_endMs = 900,
         lines = [\<lparr>texts = [token ''hi'' 0 300, token ''there'' 500 900]\<rparr>]\<rparr>]"
    by (simp add: createCaptionPages_def page_of_def token_def line_length_def)
  have mem: "?p \<in> set (createCaptionPages [token ''hi'' 0 300, token ''there'' 500 900] 30 1 100)"
    by (simp add: createCaptionPages_def page_of_def token_def line_length_def)
  note inst = pagination_covers_tokens [of "[token ''hi'' 0 300, token ''there'' 500 900]" 30 1 100]
  from inst have cover: "concat (map page_tokens
        (createCaptionPages [token ''hi'' 0 300, token ''there'' 500 900] 30 1 100))
     = [token ''hi'' 0 300, token ''there'' 500 900]"
    by (rule conjunct1)
  from inst have bounds:
    "\<forall>p \<in> set (createCaptionPages [token ''hi'' 0 300, token ''there'' 500 900] 30 1 100).
         page_tokens p \<noteq> [] \<and> page_startMs p = startMs (hd (page_tokens p))
         \<and> page_endMs p = endMs (last (page_tokens p))"
    by (rule conjunct1 [OF conjunct2])
  from bounds mem
  have "page_tokens ?p \<noteq> [] \<and> page_startMs ?p = startMs (hd (page_tokens ?p))
      \<and> page_endMs ?p = endMs (last (page_tokens ?p))"
    by (rule bspec)
  then have b1: "page_tokens ?p \<noteq> []"
    and b2: "page_startMs ?p = startMs (hd (page_tokens ?p))"
    and b3: "page_endMs ?p = endMs (last (page_tokens ?p))"
    by (rule conjunct1, rule conjunct1 [OF conjunct2], rule conjunct2 [OF conjunct2])
  from two one cover mem b1 b2 b3 show ?thesis by (intro conjI)
qed

end
